theory Spec2Isabelle
  imports Complex_Main "HOL-Library.Word"
begin

section \<open>JavaScript values used by the player\<close>

text \<open>
  The track index of the player is a JavaScript number that the code only ever builds
  from integer arithmetic (\<open>+ 1\<close>, \<open>- 1\<close>, \<open>+ length\<close>, \<open>% length\<close>): it is an integer
  or, after \<open>% 0\<close>, \<open>NaN\<close>. Every comparison with \<open>NaN\<close> is false.
\<close>

datatype jsindex = IdxNaN | Idx int

fun js_add :: "jsindex \<Rightarrow> jsindex \<Rightarrow> jsindex" where
  "js_add (Idx a) (Idx b) = Idx (a + b)"
| "js_add _ _ = IdxNaN"

fun js_sub :: "jsindex \<Rightarrow> jsindex \<Rightarrow> jsindex" where
  "js_sub (Idx a) (Idx b) = Idx (a - b)"
| "js_sub _ _ = IdxNaN"

text \<open>
  The remainder operator \<open>%\<close>: the result has the sign of the dividend, and a zero
  divisor gives \<open>NaN\<close>.
\<close>

fun js_rem :: "jsindex \<Rightarrow> jsindex \<Rightarrow> jsindex" where
  "js_rem (Idx a) (Idx b) = (if b = 0 then IdxNaN else Idx (sgn a * (\<bar>a\<bar> mod \<bar>b\<bar>)))"
| "js_rem _ _ = IdxNaN"

fun js_lt :: "jsindex \<Rightarrow> jsindex \<Rightarrow> bool" where
  "js_lt (Idx a) (Idx b) = (a < b)"
| "js_lt _ _ = False"

fun js_ge :: "jsindex \<Rightarrow> jsindex \<Rightarrow> bool" where
  "js_ge (Idx a) (Idx b) = (a \<ge> b)"
| "js_ge _ _ = False"

definition js_length :: "'a list \<Rightarrow> jsindex" where
  "js_length xs = Idx (int (length xs))"

text \<open>
  Reading \<open>xs[i]\<close>: an index that is not one of \<open>0 .. length - 1\<close> (also \<open>NaN\<close>) reads
  \<open>undefined\<close>, here \<open>None\<close>.
\<close>

fun js_nth :: "'a list \<Rightarrow> jsindex \<Rightarrow> 'a option" where
  "js_nth xs (Idx k) = (if 0 \<le> k \<and> k < int (length xs) then Some (xs ! nat k) else None)"
| "js_nth xs IdxNaN = None"

text \<open>
  Times and percentages are JavaScript numbers: a finite value, taken here as a real
  number, or \<open>NaN\<close>. A number is falsy when it is \<open>0\<close> or \<open>NaN\<close>.
\<close>

datatype jsnum = NaN | Fin real

fun num_truthy :: "jsnum \<Rightarrow> bool" where
  "num_truthy NaN = False"
| "num_truthy (Fin x) = (x \<noteq> 0)"

text \<open>An optional URL of the manifest (\<open>null\<close> is \<open>None\<close>) is truthy when it is a non-empty string.\<close>

fun str_truthy :: "string option \<Rightarrow> bool" where
  "str_truthy None = False"
| "str_truthy (Some s) = (s \<noteq> [])"

datatype error = TypeError string

section \<open>Data model\<close>

text \<open>
  A track of the manifest. \<open>image\<close> and \<open>audio\<close> may be \<open>null\<close>; the manifest gives every
  track its six colors.
\<close>

record colors =
  primary :: string
  secondary :: string
  accent :: string
  muted :: string
  dark :: string
  light :: string

record track =
  title :: string
  artist :: string
  image :: "string option"
  audio :: "string option"
  colors :: colors

text \<open>
  The part of an HTML audio element the player reads and writes. \<open>src\<close> is the source
  last assigned (empty when none is bound); \<open>duration\<close> is \<open>NaN\<close> until the metadata of
  the source has been loaded.
\<close>

record audio_el =
  src :: string
  preload :: string
  currentTime :: jsnum
  duration :: jsnum
  paused :: bool

definition new_Audio :: audio_el where
  "new_Audio = \<lparr>src = [], preload = [], currentTime = Fin 0, duration = NaN, paused = True\<rparr>"

datatype ctx_state = Suspended | Running | Closed

text \<open>
  The visualizer object (\<open>visualizer.js\<close>). \<open>audioContext\<close> holds the state of the
  audio graph once it exists; \<open>dataArray\<close> is the \<open>Uint8Array\<close> of frequency bins.
\<close>

record visualizer =
  audioContext :: "ctx_state option"
  dataArray :: "8 word list option"
  isActive :: bool
  vis_colors :: colors
  waveformHistory :: "nat list list"
  maxHistory :: nat

text \<open>
  Calls that leave the engine, in the order they are made: to the audio element, to the
  audio graph and to the methods that write the page.
\<close>

datatype event =
    AudioPause
  | AudioPlay
  | AudioLoad
  | CtxResume
  | CtxResumed
  | PreloadStarted string
  | UpdateAlbumArt "string option"
  | UpdateTrackInfo string string
  | UpdateTheme colors
  | UpdatePlayButton bool
  | UpdateRecordRotation bool

text \<open>
  The \<open>Player\<close> object. \<open>player_audio\<close> is its field \<open>audio\<close> (the name \<open>audio\<close> is the
  track's field here). \<open>preloadCache\<close> is a JavaScript \<open>Map\<close>: an association list in
  insertion order. \<open>env_newContext\<close> is the answer of the host to
  \<open>new AudioContext()\<close>: the state of the new context, or \<open>None\<close> when the constructor
  throws. \<open>trace\<close> collects the events.
\<close>

record player =
  tracks :: "track list"
  currentTrackIndex :: jsindex
  player_audio :: audio_el
  isPlaying :: bool
  preloadCache :: "(string \<times> audio_el) list"
  visualizer :: "visualizer option"
  env_newContext :: "ctx_state option"
  trace :: "event list"

type_synonym outcome = "(error \<times> player) + player"

text \<open>A thrown exception carries the state at the moment of the throw.\<close>

definition and_then :: "outcome \<Rightarrow> (player \<Rightarrow> outcome) \<Rightarrow> outcome" where
  "and_then r f = (case r of Inl e \<Rightarrow> Inl e | Inr p \<Rightarrow> f p)"

definition emit :: "event \<Rightarrow> player \<Rightarrow> player" where
  "emit e p = p\<lparr>trace := trace p @ [e]\<rparr>"

section \<open>The preload cache\<close>

definition map_has :: "'k \<Rightarrow> ('k \<times> 'v) list \<Rightarrow> bool" where
  "map_has k m = (map_of m k \<noteq> None)"

definition map_get :: "'k \<Rightarrow> ('k \<times> 'v) list \<Rightarrow> 'v option" where
  "map_get k m = map_of m k"

text \<open>\<open>Map.set\<close>: a present key keeps its place, a new key goes to the end.\<close>

definition map_set :: "'k \<Rightarrow> 'v \<Rightarrow> ('k \<times> 'v) list \<Rightarrow> ('k \<times> 'v) list" where
  "map_set k v m =
     (if map_has k m then map (\<lambda>(k', v'). if k' = k then (k', v) else (k', v')) m
      else m @ [(k, v)])"

definition map_delete :: "'k \<Rightarrow> ('k \<times> 'v) list \<Rightarrow> ('k \<times> 'v) list" where
  "map_delete k m = filter (\<lambda>(k', v'). k' \<noteq> k) m"

definition map_keys :: "('k \<times> 'v) list \<Rightarrow> 'k list" where
  "map_keys m = map fst m"

text \<open>
  The clean-up at the end of \<open>preloadTrack\<close>: when the cache holds more than 3
  entries, the first key of the iteration order is deleted.
\<close>

definition evict_oldest :: "('k \<times> 'v) list \<Rightarrow> ('k \<times> 'v) list" where
  "evict_oldest c1 =
     (if length c1 > 3
      then (case map_keys c1 of
              [] \<Rightarrow> c1
            | firstKey # _ \<Rightarrow> map_delete firstKey c1)
      else c1)"

text \<open>
  \<open>preloadTrack(index)\<close>. The guard lets \<open>NaN\<close> through, and then \<open>track\<close> is
  \<open>undefined\<close> and reading \<open>track.audio\<close> throws.
\<close>

definition preloadTrack :: "jsindex \<Rightarrow> player \<Rightarrow> outcome" where
  "preloadTrack index p =
     (if js_lt index (Idx 0) \<or> js_ge index (js_length (tracks p)) then Inr p
      else case js_nth (tracks p) index of
        None \<Rightarrow> Inl (TypeError ''audio'', p)
      | Some track \<Rightarrow>
          if \<not> str_truthy (audio track) then Inr p
          else
            let url = the (audio track) in
            if map_has url (preloadCache p) then Inr p
            else
              let preloadAudio = new_Audio\<lparr>preload := ''auto'', src := url\<rparr>;
                  c1 = map_set url preloadAudio (preloadCache p);
                  c2 = evict_oldest c1
              in Inr (emit (PreloadStarted url) (p\<lparr>preloadCache := c2\<rparr>)))"

definition preloadAdjacentTracks :: "player \<Rightarrow> outcome" where
  "preloadAdjacentTracks p =
     (let nextIndex = js_rem (js_add (currentTrackIndex p) (Idx 1)) (js_length (tracks p))
      in and_then (preloadTrack nextIndex p) (\<lambda>p1.
           let prevIndex = js_rem (js_add (js_sub (currentTrackIndex p1) (Idx 1))
                                      (js_length (tracks p1))) (js_length (tracks p1))
           in preloadTrack prevIndex p1))"

section \<open>Playback engine\<close>

definition updatePlayButton :: "player \<Rightarrow> player" where
  "updatePlayButton p = emit (UpdatePlayButton (isPlaying p)) p"

definition updateRecordRotation :: "player \<Rightarrow> player" where
  "updateRecordRotation p = emit (UpdateRecordRotation (isPlaying p)) p"

definition updateAlbumArt :: "string option \<Rightarrow> player \<Rightarrow> player" where
  "updateAlbumArt imageSrc p = emit (UpdateAlbumArt imageSrc) p"

definition updateTrackInfo :: "track \<Rightarrow> player \<Rightarrow> player" where
  "updateTrackInfo t p = emit (UpdateTrackInfo (title t) (artist t)) p"

definition updateColors :: "colors \<Rightarrow> visualizer \<Rightarrow> visualizer" where
  "updateColors c v = v\<lparr>vis_colors := c\<rparr>"

definition updateTheme :: "colors \<Rightarrow> player \<Rightarrow> player" where
  "updateTheme c p =
     (let p1 = emit (UpdateTheme c) p
      in case visualizer p1 of
           None \<Rightarrow> p1
         | Some v \<Rightarrow> p1\<lparr>visualizer := Some (updateColors c v)\<rparr>)"

definition pause :: "player \<Rightarrow> player" where
  "pause p =
     (let p1 = emit AudioPause (p\<lparr>player_audio := (player_audio p)\<lparr>paused := True\<rparr>\<rparr>);
          p2 = p1\<lparr>isPlaying := False\<rparr>
      in updateRecordRotation (updatePlayButton p2))"

text \<open>
  \<open>play()\<close>. \<open>resume()\<close> only requests the resume and returns a promise; the call goes
  on at once. The promise is settled by the host later, in \<open>resume_fulfilled\<close>.
\<close>

definition play :: "player \<Rightarrow> player" where
  "play p =
     (if src (player_audio p) \<noteq> [] then
        let p1 = (case visualizer p of
                    None \<Rightarrow> p
                  | Some v \<Rightarrow>
                      (case audioContext v of
                         Some Suspended \<Rightarrow> emit CtxResume p
                       | _ \<Rightarrow> p));
            p2 = emit AudioPlay (p1\<lparr>player_audio := (player_audio p1)\<lparr>paused := False\<rparr>\<rparr>);
            p3 = p2\<lparr>isPlaying := True\<rparr>
        in updateRecordRotation (updatePlayButton p3)
      else p)"

definition resume_fulfilled :: "player \<Rightarrow> player" where
  "resume_fulfilled p =
     (case visualizer p of
        None \<Rightarrow> p
      | Some v \<Rightarrow> emit CtxResumed (p\<lparr>visualizer := Some (v\<lparr>audioContext := Some Running\<rparr>)\<rparr>))"

definition togglePlayPause :: "player \<Rightarrow> player" where
  "togglePlayPause p = (if isPlaying p then pause p else play p)"

text \<open>
  \<open>connectAudio\<close> of the visualizer: creates the audio graph once, with a transform
  size of 512, so that the analyser has 256 frequency bins. An exception of the host is
  caught inside.
\<close>

definition fftSize :: nat where
  "fftSize = 512"

definition frequencyBinCount :: nat where
  "frequencyBinCount = fftSize div 2"

definition connectAudio :: "ctx_state option \<Rightarrow> visualizer \<Rightarrow> visualizer" where
  "connectAudio host v =
     (case audioContext v of
        Some _ \<Rightarrow> v
      | None \<Rightarrow>
          (case host of
             None \<Rightarrow> v
           | Some st \<Rightarrow> v\<lparr>audioContext := Some st,
                           dataArray := Some (replicate frequencyBinCount 0)\<rparr>))"

text \<open>Assigning \<open>src\<close> and calling \<open>load()\<close> reset the element.\<close>

definition audio_bind :: "string \<Rightarrow> audio_el \<Rightarrow> audio_el" where
  "audio_bind u a = a\<lparr>src := u, currentTime := Fin 0, duration := NaN, paused := True\<rparr>"

text \<open>
  \<open>loadTrack(index, autoplay)\<close>. Its block "load audio if available" is
  \<open>loadAudio\<close>, and the connection of the visualizer on the first load inside that
  block is \<open>connectOnFirstLoad\<close>. The guard lets \<open>NaN\<close> through: then the index is
  stored, \<open>track\<close> is \<open>undefined\<close> and reading \<open>track.title\<close> throws.
\<close>

definition connectOnFirstLoad :: "player \<Rightarrow> player" where
  "connectOnFirstLoad p =
     (case visualizer p of
        None \<Rightarrow> p
      | Some v \<Rightarrow>
          (if audioContext v = None
           then p\<lparr>visualizer := Some (connectAudio (env_newContext p) v)\<rparr>
           else p))"

definition loadAudio :: "track \<Rightarrow> bool \<Rightarrow> player \<Rightarrow> player" where
  "loadAudio track autoplay p =
     (if str_truthy (audio track) then
        let q1 = connectOnFirstLoad p;
            url = the (audio track);
            source = (case map_get url (preloadCache q1) of
                        Some preloadedAudio \<Rightarrow> src preloadedAudio
                      | None \<Rightarrow> url);
            q2 = q1\<lparr>player_audio := audio_bind source (player_audio q1)\<rparr>;
            q3 = q2\<lparr>player_audio := (player_audio q2)\<lparr>preload := ''auto''\<rparr>\<rparr>;
            q4 = emit AudioLoad q3
        in (if autoplay then play q4 else q4)
      else p\<lparr>player_audio := audio_bind [] (player_audio p)\<rparr>)"

definition loadTrack :: "jsindex \<Rightarrow> bool \<Rightarrow> player \<Rightarrow> outcome" where
  "loadTrack index autoplay p =
     (if js_lt index (Idx 0) \<or> js_ge index (js_length (tracks p)) then Inr p
      else
        let p1 = p\<lparr>currentTrackIndex := index\<rparr> in
        case js_nth (tracks p1) index of
          None \<Rightarrow> Inl (TypeError ''title'', p1)
        | Some track \<Rightarrow>
            let p2 = pause p1;
                p3 = updateAlbumArt (image track) p2;
                p4 = updateTrackInfo track p3;
                p5 = updateTheme (colors track) p4;
                p6 = loadAudio track autoplay p5;
                p7 = updatePlayButton p6
            in preloadAdjacentTracks p7)"

definition nextTrack :: "player \<Rightarrow> outcome" where
  "nextTrack p =
     (let nextIndex = js_rem (js_add (currentTrackIndex p) (Idx 1)) (js_length (tracks p))
      in loadTrack nextIndex (isPlaying p) p)"

definition previousTrack :: "player \<Rightarrow> outcome" where
  "previousTrack p =
     (let prevIndex = js_rem (js_add (js_sub (currentTrackIndex p) (Idx 1))
                                (js_length (tracks p))) (js_length (tracks p))
      in loadTrack prevIndex (isPlaying p) p)"

text \<open>The listener of the audio element's \<open>ended\<close> event.\<close>

definition on_ended :: "player \<Rightarrow> outcome" where
  "on_ended p = nextTrack p"

text \<open>
  \<open>seek(percent)\<close>. The audio element refuses a position that is not finite with a
  \<open>TypeError\<close>.
\<close>

definition seek :: "jsnum \<Rightarrow> player \<Rightarrow> outcome" where
  "seek percent p =
     (if num_truthy (duration (player_audio p)) then
        (case (percent, duration (player_audio p)) of
           (Fin pc, Fin d) \<Rightarrow>
             Inr (p\<lparr>player_audio := (player_audio p)\<lparr>currentTime := Fin ((pc / 100) * d)\<rparr>\<rparr>)
         | _ \<Rightarrow> Inl (TypeError ''currentTime'', p))
      else Inr p)"

text \<open>
  The state the constructor builds, and the state \<open>init\<close> leaves when the manifest
  could not be loaded: no tracks, and the visualizer created and shown. The visualizer
  starts with three colors only; the keys it does not have are empty here.
\<close>

definition default_colors :: colors where
  "default_colors = \<lparr>primary = ''#6366f1'', secondary = ''#4f46e5'', accent = ''#a78bfa'',
     muted = [], dark = [], light = []\<rparr>"

definition new_AudioVisualizer :: visualizer where
  "new_AudioVisualizer = \<lparr>audioContext = None, dataArray = None, isActive = False,
     vis_colors = default_colors, waveformHistory = [], maxHistory = 100\<rparr>"

definition new_Player :: "ctx_state option \<Rightarrow> player" where
  "new_Player host = \<lparr>tracks = [], currentTrackIndex = Idx 0, player_audio = new_Audio,
     isPlaying = False, preloadCache = [], visualizer = None, env_newContext = host,
     trace = []\<rparr>"

definition empty_state :: "ctx_state option \<Rightarrow> player" where
  "empty_state host = (new_Player host)\<lparr>visualizer := Some (new_AudioVisualizer\<lparr>isActive := True\<rparr>)\<rparr>"

section \<open>Time display\<close>

text \<open>
  The argument of \<open>formatTime\<close>: a number, or one of the falsy values \<open>undefined\<close>
  and \<open>null\<close>.
\<close>

datatype jsval = JUndefined | JNull | JNumber jsnum

definition digit_char :: "nat \<Rightarrow> char" where
  "digit_char n = ''0123456789'' ! n"

fun dec_nat :: "nat \<Rightarrow> string" where
  "dec_nat n = (if n < 10 then [digit_char n] else dec_nat (n div 10) @ [digit_char (n mod 10)])"

declare dec_nat.simps [simp del]

text \<open>
  Numbers are doubles in the code and real numbers here. Two results of \<open>formatTime\<close>
  depend on the rounding of doubles, and there they are the host's, taken as parameters:
  the quotient \<open>a / b\<close> as the host rounds it, and the string of an integer that the
  host does not print by its exact digits.
\<close>

record js_host =
  host_divide :: "real \<Rightarrow> real \<Rightarrow> real"
  host_toString :: "int \<Rightarrow> string"

text \<open>
  \<open>Math.floor(seconds / 60)\<close>. For a double \<open>0 \<le> seconds < 2^52\<close> the floor of the
  rounded quotient is the floor of the exact one: every multiple of 60 in that range is
  a double, and a double below it is too far below for the quotient to round up to the
  next integer. Elsewhere the rounded quotient is the host's.
\<close>

definition floor_div60 :: "js_host \<Rightarrow> real \<Rightarrow> int" where
  "floor_div60 h s =
     (if 0 \<le> s \<and> s < 2 ^ 52 then \<lfloor>s / 60\<rfloor> else \<lfloor>host_divide h s 60\<rfloor>)"

text \<open>
  \<open>Number.prototype.toString\<close> on an integer. An integer of magnitude below \<open>2^53\<close> is
  printed by its decimal digits. From \<open>2^53\<close> up JavaScript prints the shortest digits
  that read back as the same double, and exponent notation from \<open>10^21\<close>: the host's
  string.
\<close>

definition num_toString :: "js_host \<Rightarrow> int \<Rightarrow> string" where
  "num_toString h k =
     (if \<bar>k\<bar> < 2 ^ 53
      then (if k < 0 then CHR ''-'' # dec_nat (nat (- k)) else dec_nat (nat k))
      else host_toString h k)"

definition padStart :: "nat \<Rightarrow> char \<Rightarrow> string \<Rightarrow> string" where
  "padStart n c s = replicate (n - length s) c @ s"

text \<open>
  \<open>a % b\<close> on numbers, for \<open>b \<noteq> 0\<close>: \<open>a\<close> minus \<open>b\<close> times the quotient rounded towards
  zero. The remainder of two doubles is a double, so no rounding takes place.
\<close>

definition js_fmod :: "real \<Rightarrow> real \<Rightarrow> real" where
  "js_fmod a b = a - b * of_int (if a / b < 0 then \<lceil>a / b\<rceil> else \<lfloor>a / b\<rfloor>)"

definition formatTime :: "js_host \<Rightarrow> jsval \<Rightarrow> string" where
  "formatTime h seconds =
     (case seconds of
        JNumber (Fin s) \<Rightarrow>
          if s = 0 then ''0:00''
          else
            let mins = floor_div60 h s;
                secs = \<lfloor>js_fmod s 60\<rfloor>
            in num_toString h mins @ '':'' @ padStart 2 (CHR ''0'') (num_toString h secs)
      | _ \<Rightarrow> ''0:00'')"

section \<open>Visualizer\<close>

text \<open>\<open>this.dataArray[index] || 0\<close>: a read past the end is \<open>undefined\<close> and gives 0.\<close>

definition sample_or_zero :: "8 word list \<Rightarrow> nat \<Rightarrow> nat" where
  "sample_or_zero d k = (if k < length d then unat (d ! k) else 0)"

definition waveformData :: "8 word list \<Rightarrow> nat list" where
  "waveformData d =
     (let sampleSize = 32;
          step = length d div sampleSize
      in map (\<lambda>i. sample_or_zero d (i * step)) [0..<sampleSize])"

text \<open>
  The part of \<open>drawPulseLine\<close> that changes the visualizer: the new frame goes to the
  front of the history (\<open>unshift\<close>) and one frame is dropped from the back (\<open>pop\<close>) when
  the history is longer than \<open>maxHistory\<close>. The strokes on the canvas, and the mean of
  the bins that sets their glow, are not part of the state.
\<close>

definition drawPulseLine :: "visualizer \<Rightarrow> error + visualizer" where
  "drawPulseLine v =
     (case dataArray v of
        None \<Rightarrow> Inl (TypeError ''length'')
      | Some d \<Rightarrow>
          let h1 = waveformData d # waveformHistory v;
              h2 = (if length h1 > maxHistory v then butlast h1 else h1)
          in Inr (v\<lparr>waveformHistory := h2\<rparr>))"

text \<open>
  \<open>drawIdlePulse\<close>: the points of the line it strokes, from the size of the canvas
  (\<open>offsetWidth || 300\<close>, \<open>offsetHeight || 300\<close>) and the clock \<open>Date.now()\<close>.
\<close>

definition or_300 :: "real \<Rightarrow> real" where
  "or_300 x = (if x = 0 then 300 else x)"

definition drawIdlePulse :: "real \<Rightarrow> real \<Rightarrow> real \<Rightarrow> (real \<times> real) list" where
  "drawIdlePulse offsetWidth offsetHeight now =
     (let width = or_300 offsetWidth;
          height = or_300 offsetHeight;
          centerY = height / 2;
          time = now * 0.002;
          points = 50;
          pointSpacing = width / (real points - 1)
      in map (\<lambda>i.
           let x = real i * pointSpacing;
               wave1 = sin (real i * 0.1 + time) * 10;
               wave2 = sin (real i * 0.2 - time * 1.5) * 5;
               y = centerY + wave1 + wave2
           in (x, y)) [0..<points])"

text \<open>\<open>getByteFrequencyData\<close>: the host writes its bins over the array, as far as it reaches.\<close>

definition getByteFrequencyData :: "8 word list \<Rightarrow> 8 word list \<Rightarrow> 8 word list" where
  "getByteFrequencyData bins d = take (length d) bins @ drop (length bins) d"

datatype drawn = Nothing | PulseLine | IdlePulse "(real \<times> real) list"

text \<open>
  One tick of \<open>animate\<close>. The analyser exists exactly when the audio context does
  (\<open>connectAudio\<close> creates both).
\<close>

definition animate ::
  "8 word list \<Rightarrow> real \<Rightarrow> real \<Rightarrow> real \<Rightarrow> visualizer \<Rightarrow> error + (visualizer \<times> drawn)" where
  "animate bins offsetWidth offsetHeight now v =
     (if \<not> isActive v then Inr (v, Nothing)
      else case (audioContext v, dataArray v) of
        (Some _, Some d) \<Rightarrow>
          (case drawPulseLine (v\<lparr>dataArray := Some (getByteFrequencyData bins d)\<rparr>) of
             Inl e \<Rightarrow> Inl e
           | Inr v' \<Rightarrow> Inr (v', PulseLine))
      | _ \<Rightarrow> Inr (v, IdlePulse (drawIdlePulse offsetWidth offsetHeight now)))"

section \<open>Reading outcomes, and example data\<close>

definition outcome_state :: "outcome \<Rightarrow> player" where
  "outcome_state r = (case r of Inl (e, p) \<Rightarrow> p | Inr p \<Rightarrow> p)"

definition threw :: "outcome \<Rightarrow> bool" where
  "threw r = (case r of Inl _ \<Rightarrow> True | Inr _ \<Rightarrow> False)"

text \<open>Calling an operation \<open>n\<close> times in a row; an exception ends the run.\<close>

fun iterate :: "nat \<Rightarrow> (player \<Rightarrow> outcome) \<Rightarrow> player \<Rightarrow> outcome" where
  "iterate 0 f p = Inr p"
| "iterate (Suc n) f p = and_then (f p) (iterate n f)"

text \<open>Calling \<open>preloadTrack\<close> on a list of indices, one after the other.\<close>

fun preloadAll :: "jsindex list \<Rightarrow> player \<Rightarrow> outcome" where
  "preloadAll [] p = Inr p"
| "preloadAll (i # is) p = and_then (preloadTrack i p) (preloadAll is)"

definition demo_colors :: colors where
  "demo_colors = \<lparr>primary = ''#112233'', secondary = ''#223344'', accent = ''#334455'',
     muted = ''#445566'', dark = ''#000000'', light = ''#ffffff''\<rparr>"

definition demo_track :: "string \<Rightarrow> string option \<Rightarrow> track" where
  "demo_track t a = \<lparr>title = t, artist = ''X'', image = None, audio = a, colors = demo_colors\<rparr>"

text \<open>The state after \<open>init\<close> has read a manifest, before it loads the first track.\<close>

definition demo_player :: "track list \<Rightarrow> player" where
  "demo_player ts = (empty_state (Some Suspended))\<lparr>tracks := ts\<rparr>"

definition demo_four :: player where
  "demo_four = demo_player [demo_track ''A'' (Some ''u1''), demo_track ''B'' (Some ''u2''),
     demo_track ''C'' (Some ''u3''), demo_track ''D'' (Some ''u4'')]"


text \<open>The cache as a \<open>Map\<close> of at most 3 entries: no key twice.\<close>

definition cache_ok :: "player \<Rightarrow> bool" where
  "cache_ok p = (length (preloadCache p) \<le> 3 \<and> distinct (map_keys (preloadCache p)))"

text \<open>Counting events of the trace: calls of \<open>audio.play()\<close>, and tracks shown on the page.\<close>

definition plays :: "event list \<Rightarrow> nat" where
  "plays es = length (filter (\<lambda>e. e = AudioPlay) es)"

fun is_track_info :: "event \<Rightarrow> bool" where
  "is_track_info (UpdateTrackInfo _ _) = True"
| "is_track_info _ = False"

definition loads :: "event list \<Rightarrow> nat" where
  "loads es = length (filter is_track_info es)"

text \<open>Every cached element was created for its key: its source is the key.\<close>

definition cache_src_ok :: "player \<Rightarrow> bool" where
  "cache_src_ok p = list_all (\<lambda>(u, a). src a = u) (preloadCache p)"

text \<open>Example states, built by the operations themselves.\<close>

definition demo_loaded :: player where
  "demo_loaded = outcome_state (loadTrack (Idx 2) False demo_four)"

definition demo_two :: player where
  "demo_two = demo_player [demo_track ''A'' None, demo_track ''B'' (Some ''b.mp3'')]"

definition demo_two_playing_last :: player where
  "demo_two_playing_last =
     play (outcome_state (nextTrack (outcome_state (loadTrack (Idx 0) False demo_two))))"

definition demo_four_playing_last :: player where
  "demo_four_playing_last =
     play (outcome_state (previousTrack (outcome_state (loadTrack (Idx 0) False demo_four))))"

definition demo_one_ready :: player where
  "demo_one_ready =
     outcome_state (loadTrack (Idx 0) False (demo_player [demo_track ''A'' (Some ''a.mp3'')]))"

text \<open>The host has read the metadata of the source: the duration is known.\<close>

definition metadata_loaded :: "real \<Rightarrow> player \<Rightarrow> player" where
  "metadata_loaded d p = p\<lparr>player_audio := (player_audio p)\<lparr>duration := Fin d\<rparr>\<rparr>"

definition demo_spectrum :: "8 word list" where
  "demo_spectrum = map of_nat [0..<256]"

definition demo_visualizer :: visualizer where
  "demo_visualizer = (connectAudio (Some Running) (new_AudioVisualizer\<lparr>isActive := True\<rparr>))
     \<lparr>dataArray := Some demo_spectrum\<rparr>"

section \<open>Transport operations in the Empty state\<close>

text \<open>
  Claim C1. The claim says that no transport operation throws, in the Empty state too.
  With no tracks, \<open>nextTrack\<close> and \<open>previousTrack\<close> compute the index \<open>1 % 0\<close> and
  \<open>-1 % 0\<close>, which is \<open>NaN\<close>; the range check of \<open>loadTrack\<close> compares and so lets
  \<open>NaN\<close> pass, \<open>currentTrackIndex\<close> becomes \<open>NaN\<close>, and reading \<open>track.title\<close> of the
  undefined track throws a \<open>TypeError\<close>.
\<close>

theorem transport_throws_in_empty_state:
  "nextTrack (empty_state host)
     = Inl (TypeError ''title'', (empty_state host)\<lparr>currentTrackIndex := IdxNaN\<rparr>)
   \<and> previousTrack (empty_state host)
     = Inl (TypeError ''title'', (empty_state host)\<lparr>currentTrackIndex := IdxNaN\<rparr>)"
  by (simp add: nextTrack_def previousTrack_def empty_state_def new_Player_def loadTrack_def
      js_length_def)

section \<open>Loading a track\<close>

text \<open>
  Claim C7. \<open>loadTrack\<close> with an integer index below 0 or not below the number of
  tracks returns the state as it was: index, playing flag, position, duration, caches
  and the trace of calls (no pause, no update of the page, no new source, no preload)
  are all unchanged.
\<close>

theorem loadTrack_out_of_range_noop:
  "i < 0 \<or> i \<ge> int (length (tracks p)) \<Longrightarrow> loadTrack (Idx i) autoplay p = Inr p"
  by (auto simp add: loadTrack_def js_length_def)

theorem loadTrack_out_of_range_noop_witness:
  "((2::int) < 0
      \<or> 2 \<ge> int (length (tracks (demo_player [demo_track ''A'' (Some ''a.mp3''), demo_track ''B'' None]))))
   \<and> loadTrack (Idx 2) True (demo_player [demo_track ''A'' (Some ''a.mp3''), demo_track ''B'' None])
       = Inr (demo_player [demo_track ''A'' (Some ''a.mp3''), demo_track ''B'' None])
   \<and> loadTrack (Idx (- 1)) False (demo_player [demo_track ''A'' (Some ''a.mp3''), demo_track ''B'' None])
       = Inr (demo_player [demo_track ''A'' (Some ''a.mp3''), demo_track ''B'' None])"
  using loadTrack_out_of_range_noop
      [of 2 "demo_player [demo_track ''A'' (Some ''a.mp3''), demo_track ''B'' None]" True]
    loadTrack_out_of_range_noop
      [of "- 1" "demo_player [demo_track ''A'' (Some ''a.mp3''), demo_track ''B'' None]" False]
  by (simp add: demo_player_def)

section \<open>The preload cache is bounded and first-in first-out\<close>

lemma map_has_keys: "map_has k m \<longleftrightarrow> k \<in> set (map_keys m)"
  by (simp add: map_has_def map_keys_def map_of_eq_None_iff)

lemma map_set_new: "\<not> map_has k m \<Longrightarrow> map_set k v m = m @ [(k, v)]"
  by (simp add: map_set_def)

lemma map_delete_head: "k \<notin> set (map fst rest) \<Longrightarrow> map_delete k ((k, v) # rest) = rest"
  by (induction rest) (auto simp: map_delete_def)

lemma js_nth_Some_guard:
  "js_nth xs i = Some t \<Longrightarrow> \<not> (js_lt i (Idx 0) \<or> js_ge i (js_length xs))"
  by (cases i) (auto simp: js_length_def split: if_splits)

lemma preloadTrack_new_key:
  assumes "js_nth (tracks p) i = Some t" "audio t = Some u" "u \<noteq> []"
    "\<not> map_has u (preloadCache p)"
  shows "preloadTrack i p = Inr (emit (PreloadStarted u)
           (p\<lparr>preloadCache :=
                evict_oldest (preloadCache p @ [(u, new_Audio\<lparr>preload := ''auto'', src := u\<rparr>)])\<rparr>))"
  using assms js_nth_Some_guard [OF assms(1)]
  by (simp add: preloadTrack_def map_set_new Let_def)

lemma preloadTrack_cases:
  "preloadTrack i p = Inr p
   \<or> preloadTrack i p = Inl (TypeError ''audio'', p)
   \<or> (\<exists>t u. js_nth (tracks p) i = Some t \<and> audio t = Some u \<and> u \<noteq> []
         \<and> \<not> map_has u (preloadCache p))"
proof (cases "js_lt i (Idx 0) \<or> js_ge i (js_length (tracks p))")
  case True
  then show ?thesis by (simp add: preloadTrack_def)
next
  case guard: False
  show ?thesis
  proof (cases "js_nth (tracks p) i")
    case None
    with guard show ?thesis by (simp add: preloadTrack_def)
  next
    case (Some t)
    show ?thesis
    proof (cases "audio t")
      case None
      with guard Some show ?thesis by (simp add: preloadTrack_def)
    next
      case au: (Some u)
      show ?thesis
      proof (cases "u = [] \<or> map_has u (preloadCache p)")
        case True
        with guard Some au show ?thesis by (auto simp add: preloadTrack_def)
      next
        case False
        with Some au show ?thesis by blast
      qed
    qed
  qed
qed

lemma evict_oldest_Cons:
  "evict_oldest (x # rest) = (if length rest > 2 then map_delete (fst x) (x # rest) else x # rest)"
  by (auto simp: evict_oldest_def map_keys_def)

lemma length_evict_oldest:
  assumes "length c \<le> 3"
  shows "length (evict_oldest (c @ [kv])) \<le> 3"
proof (cases c)
  case Nil
  then show ?thesis by (simp add: evict_oldest_def)
next
  case (Cons x rest)
  have "map_delete (fst x) (x # rest @ [kv]) = filter (\<lambda>(k', v'). k' \<noteq> fst x) (rest @ [kv])"
    by (cases x) (simp add: map_delete_def)
  then have "length (map_delete (fst x) (x # rest @ [kv])) \<le> length (rest @ [kv])"
    using length_filter_le [of "\<lambda>(k', v'). k' \<noteq> fst x" "rest @ [kv]"] by simp
  then show ?thesis using Cons assms by (simp add: evict_oldest_Cons)
qed

lemma distinct_evict_oldest:
  assumes "distinct (map fst c)" "u \<notin> set (map fst c)"
  shows "distinct (map fst (evict_oldest (c @ [(u, a)])))"
proof (cases c)
  case Nil
  then show ?thesis by (simp add: evict_oldest_def)
next
  case (Cons x rest)
  have "fst x \<notin> set (map fst (rest @ [(u, a)]))"
    using assms Cons by auto
  then have "map_delete (fst x) (x # rest @ [(u, a)]) = rest @ [(u, a)]"
    using map_delete_head [of "fst x" "rest @ [(u, a)]" "snd x"] by simp
  then show ?thesis using assms Cons by (auto simp: evict_oldest_Cons)
qed


lemma preloadTrack_cache_ok:
  assumes "cache_ok p"
  shows "cache_ok (outcome_state (preloadTrack i p))"
  using preloadTrack_cases [of i p]
proof (elim disjE exE conjE)
  fix t u
  assume new: "js_nth (tracks p) i = Some t" "audio t = Some u" "u \<noteq> []"
    "\<not> map_has u (preloadCache p)"
  have "u \<notin> set (map fst (preloadCache p))"
    using new(4) by (simp add: map_has_keys map_keys_def)
  with assms preloadTrack_new_key [OF new] show ?thesis
    by (simp add: outcome_state_def emit_def cache_ok_def map_keys_def length_evict_oldest
        distinct_evict_oldest)
qed (use assms in \<open>simp_all add: outcome_state_def\<close>)


text \<open>Reachable caches never hold a key twice, which the eviction lemma below assumes.\<close>

lemma preloadAll_cache_ok: "cache_ok p \<Longrightarrow> cache_ok (outcome_state (preloadAll is p))"
proof (induction "is" arbitrary: p)
  case Nil
  then show ?case by (simp add: outcome_state_def)
next
  case (Cons i "is")
  have ok1: "cache_ok (outcome_state (preloadTrack i p))"
    by (rule preloadTrack_cache_ok [OF Cons.prems])
  show ?case
  proof (cases "preloadTrack i p")
    case (Inl e)
    with ok1 show ?thesis by (simp add: and_then_def)
  next
    case (Inr p1)
    with ok1 have "cache_ok p1" by (simp add: outcome_state_def)
    from Cons.IH [OF this] Inr show ?thesis by (simp add: and_then_def)
  qed
qed








section \<open>Frame properties of the engine operations\<close>

lemma plays_append: "plays (es @ fs) = plays es + plays fs"
  by (simp add: plays_def)

lemma loads_append: "loads (es @ fs) = loads es + loads fs"
  by (simp add: loads_def)

lemma emit_frame:
  "tracks (emit e p) = tracks p" "currentTrackIndex (emit e p) = currentTrackIndex p"
  "isPlaying (emit e p) = isPlaying p" "player_audio (emit e p) = player_audio p"
  "trace (emit e p) = trace p @ [e]"
  by (simp_all add: emit_def)

lemma cache_frame:
  "preloadCache (emit e p) = preloadCache p"
  "preloadCache (updateTheme c p) = preloadCache p"
  by (simp_all add: emit_def updateTheme_def Let_def split: option.splits)

lemma updateTheme_frame:
  "tracks (updateTheme c p) = tracks p" "currentTrackIndex (updateTheme c p) = currentTrackIndex p"
  "isPlaying (updateTheme c p) = isPlaying p" "player_audio (updateTheme c p) = player_audio p"
  "trace (updateTheme c p) = trace p @ [UpdateTheme c]"
  by (simp_all add: emit_def updateTheme_def Let_def split: option.splits)

lemma pause_frame:
  "tracks (pause p) = tracks p" "currentTrackIndex (pause p) = currentTrackIndex p"
  "isPlaying (pause p) = False" "preloadCache (pause p) = preloadCache p"
  "visualizer (pause p) = visualizer p" "env_newContext (pause p) = env_newContext p"
  "trace (pause p) = trace p @ [AudioPause, UpdatePlayButton False, UpdateRecordRotation False]"
  by (simp_all add: pause_def updatePlayButton_def updateRecordRotation_def emit_def Let_def)

lemma play_frame:
  "tracks (play p) = tracks p" "currentTrackIndex (play p) = currentTrackIndex p"
  "preloadCache (play p) = preloadCache p" "visualizer (play p) = visualizer p"
  "isPlaying (play p) = (isPlaying p \<or> src (player_audio p) \<noteq> [])"
  "plays (trace (play p)) = plays (trace p) + (if src (player_audio p) \<noteq> [] then 1 else 0)"
  "loads (trace (play p)) = loads (trace p)"
  by (simp_all add: play_def updatePlayButton_def updateRecordRotation_def emit_def Let_def
      plays_def loads_def split: option.splits ctx_state.splits)

lemma connectOnFirstLoad_frame:
  "tracks (connectOnFirstLoad p) = tracks p"
  "currentTrackIndex (connectOnFirstLoad p) = currentTrackIndex p"
  "isPlaying (connectOnFirstLoad p) = isPlaying p"
  "player_audio (connectOnFirstLoad p) = player_audio p"
  "preloadCache (connectOnFirstLoad p) = preloadCache p"
  "trace (connectOnFirstLoad p) = trace p"
  by (simp_all add: connectOnFirstLoad_def split: option.splits)

lemma loadAudio_frame:
  "tracks (loadAudio t ap p) = tracks p"
  "currentTrackIndex (loadAudio t ap p) = currentTrackIndex p"
  "loads (trace (loadAudio t ap p)) = loads (trace p)"
  by (simp_all add: loadAudio_def Let_def play_frame emit_frame connectOnFirstLoad_frame
      loads_append, simp_all add: loads_def)

lemma loadAudio_cache: "preloadCache (loadAudio t ap p) = preloadCache p"
  by (simp add: loadAudio_def Let_def play_frame cache_frame connectOnFirstLoad_frame)

lemma cached_src:
  assumes "cache_src_ok p" "map_get u (preloadCache p) = Some a"
  shows "src a = u"
proof -
  from assms(2) have "(u, a) \<in> set (preloadCache p)"
    by (simp add: map_get_def map_of_SomeD)
  with assms(1) show ?thesis by (auto simp: cache_src_ok_def list_all_iff)
qed

lemma loadAudio_playing:
  assumes "cache_src_ok p" "\<not> isPlaying p"
  shows "isPlaying (loadAudio t ap p) = (ap \<and> str_truthy (audio t))"
    and "plays (trace (loadAudio t ap p))
           = plays (trace p) + (if ap \<and> str_truthy (audio t) then 1 else 0)"
proof -
  have src: "src a \<noteq> []"
    if "str_truthy (audio t)" "map_get (the (audio t)) (preloadCache p) = Some a" for a
    using cached_src [OF assms(1) that(2)] that(1) by (cases "audio t") auto
  have url: "the (audio t) \<noteq> []" if "str_truthy (audio t)"
    using that by (cases "audio t") auto
  show "isPlaying (loadAudio t ap p) = (ap \<and> str_truthy (audio t))"
    using assms(2) src url
    by (auto simp: loadAudio_def Let_def play_frame emit_frame connectOnFirstLoad_frame
        audio_bind_def split: option.splits)
  show "plays (trace (loadAudio t ap p))
           = plays (trace p) + (if ap \<and> str_truthy (audio t) then 1 else 0)"
    using src url
    by (auto simp: loadAudio_def Let_def play_frame emit_frame connectOnFirstLoad_frame
        audio_bind_def plays_append split: option.splits) (simp_all add: plays_def)
qed

section \<open>Preloading never throws on a non-empty track list\<close>

lemma preloadTrack_Idx:
  "\<exists>p'. preloadTrack (Idx k) p = Inr p' \<and> tracks p' = tracks p
     \<and> currentTrackIndex p' = currentTrackIndex p \<and> isPlaying p' = isPlaying p
     \<and> plays (trace p') = plays (trace p) \<and> loads (trace p') = loads (trace p)"
  using preloadTrack_cases [of "Idx k" p]
proof (elim disjE exE conjE)
  assume "preloadTrack (Idx k) p = Inl (TypeError ''audio'', p)"
  then show ?thesis
    by (auto simp: preloadTrack_def js_length_def Let_def split: if_splits option.splits)
next
  fix t u
  assume "js_nth (tracks p) (Idx k) = Some t" "audio t = Some u" "u \<noteq> []"
    "\<not> map_has u (preloadCache p)"
  from preloadTrack_new_key [OF this] show ?thesis
    by (simp add: emit_def plays_def loads_def)
qed simp

lemma js_rem_next:
  assumes "0 \<le> i" "0 < n"
  shows "js_rem (js_add (Idx i) (Idx 1)) (Idx n) = Idx ((i + 1) mod n)"
  using assms by simp

lemma js_rem_prev:
  assumes "0 \<le> i" "0 < n"
  shows "js_rem (js_add (js_sub (Idx i) (Idx 1)) (Idx n)) (Idx n) = Idx ((i - 1) mod n)"
proof -
  have "0 \<le> i - 1 + n" using assms by simp
  then have "sgn (i - 1 + n) * (\<bar>i - 1 + n\<bar> mod \<bar>n\<bar>) = (i - 1 + n) mod n"
    using assms by (cases "i - 1 + n = 0") (simp_all add: sgn_if)
  then show ?thesis using assms by simp
qed

lemma preloadAdjacentTracks_ok:
  assumes "currentTrackIndex p = Idx i" and False: "tracks p \<noteq> []"
  shows "\<exists>p'. preloadAdjacentTracks p = Inr p' \<and> tracks p' = tracks p
     \<and> currentTrackIndex p' = currentTrackIndex p \<and> isPlaying p' = isPlaying p
     \<and> plays (trace p') = plays (trace p) \<and> loads (trace p') = loads (trace p)"
proof -
  obtain a where a: "js_rem (js_add (currentTrackIndex p) (Idx 1)) (js_length (tracks p)) = Idx a"
    using assms False by (simp add: js_length_def)
  from preloadTrack_Idx [of a p] obtain p1 where p1: "preloadTrack (Idx a) p = Inr p1"
    "tracks p1 = tracks p" "currentTrackIndex p1 = currentTrackIndex p" "isPlaying p1 = isPlaying p"
    "plays (trace p1) = plays (trace p)" "loads (trace p1) = loads (trace p)" by blast
  obtain b where b: "js_rem (js_add (js_sub (currentTrackIndex p1) (Idx 1))
      (js_length (tracks p1))) (js_length (tracks p1)) = Idx b"
    using assms False p1 by (simp add: js_length_def)
  from preloadTrack_Idx [of b p1] obtain p2 where p2: "preloadTrack (Idx b) p1 = Inr p2"
    "tracks p2 = tracks p1" "currentTrackIndex p2 = currentTrackIndex p1" "isPlaying p2 = isPlaying p1"
    "plays (trace p2) = plays (trace p1)" "loads (trace p2) = loads (trace p1)" by blast
  show ?thesis using a b p1 p2 by (simp add: preloadAdjacentTracks_def and_then_def Let_def)
qed

lemma loadTrack_unfold:
  assumes "0 \<le> k" "k < int (length (tracks p))"
  shows "loadTrack (Idx k) ap p =
     preloadAdjacentTracks (updatePlayButton (loadAudio (tracks p ! nat k) ap
       (updateTheme (colors (tracks p ! nat k)) (updateTrackInfo (tracks p ! nat k)
         (updateAlbumArt (image (tracks p ! nat k)) (pause (p\<lparr>currentTrackIndex := Idx k\<rparr>)))))))"
  using assms by (simp add: loadTrack_def js_length_def Let_def)

lemma loadTrack_valid:
  assumes "0 \<le> k" "k < int (length (tracks p))"
  shows "\<exists>p'. loadTrack (Idx k) ap p = Inr p' \<and> tracks p' = tracks p
     \<and> currentTrackIndex p' = Idx k \<and> loads (trace p') = loads (trace p) + 1"
proof -
  let ?q = "updatePlayButton (loadAudio (tracks p ! nat k) ap
       (updateTheme (colors (tracks p ! nat k)) (updateTrackInfo (tracks p ! nat k)
         (updateAlbumArt (image (tracks p ! nat k)) (pause (p\<lparr>currentTrackIndex := Idx k\<rparr>))))))"
  have ne: "tracks p \<noteq> []" using assms by auto
  have 1: "currentTrackIndex ?q = Idx k"
    by (simp add: updatePlayButton_def updateAlbumArt_def updateTrackInfo_def emit_frame
        loadAudio_frame updateTheme_frame pause_frame)
  have 2: "tracks ?q = tracks p"
    by (simp add: updatePlayButton_def updateAlbumArt_def updateTrackInfo_def emit_frame
        loadAudio_frame updateTheme_frame pause_frame)
  have 3: "loads (trace ?q) = loads (trace p) + 1"
    by (simp add: updatePlayButton_def updateAlbumArt_def updateTrackInfo_def emit_frame
        loadAudio_frame updateTheme_frame pause_frame loads_append) (simp add: loads_def)
  from preloadAdjacentTracks_ok [of ?q k] 1 2 3 ne loadTrack_unfold [OF assms, of ap]
  show ?thesis by auto
qed

lemma loadTrack_valid_playing:
  assumes "0 \<le> k" "k < int (length (tracks p))" "cache_src_ok p"
  shows "\<exists>p'. loadTrack (Idx k) ap p = Inr p' \<and> tracks p' = tracks p
     \<and> currentTrackIndex p' = Idx k \<and> loads (trace p') = loads (trace p) + 1
     \<and> isPlaying p' = (ap \<and> str_truthy (audio (tracks p ! nat k)))
     \<and> plays (trace p') = plays (trace p) + (if ap \<and> str_truthy (audio (tracks p ! nat k)) then 1 else 0)"
proof -
  let ?t = "tracks p ! nat k"
  let ?p5 = "updateTheme (colors ?t) (updateTrackInfo ?t
         (updateAlbumArt (image ?t) (pause (p\<lparr>currentTrackIndex := Idx k\<rparr>))))"
  let ?q = "updatePlayButton (loadAudio ?t ap ?p5)"
  have ne: "tracks p \<noteq> []" using assms by auto
  have c5: "cache_src_ok ?p5"
    using assms(3)
    by (simp add: cache_src_ok_def updateAlbumArt_def updateTrackInfo_def cache_frame pause_frame)
  have n5: "\<not> isPlaying ?p5"
    by (simp add: updateAlbumArt_def updateTrackInfo_def emit_frame updateTheme_frame pause_frame)
  have t5: "plays (trace ?p5) = plays (trace p)" "loads (trace ?p5) = loads (trace p) + 1"
    by (simp_all add: updateAlbumArt_def updateTrackInfo_def emit_frame updateTheme_frame
        pause_frame plays_def loads_def)
  have 1: "currentTrackIndex ?q = Idx k" "tracks ?q = tracks p"
    by (simp_all add: updatePlayButton_def updateAlbumArt_def updateTrackInfo_def emit_frame
        loadAudio_frame updateTheme_frame pause_frame)
  have 3: "loads (trace ?q) = loads (trace p) + 1"
    using t5(2) by (simp add: updatePlayButton_def emit_frame loadAudio_frame loads_append)
      (simp add: loads_def)
  have 4: "isPlaying ?q = (ap \<and> str_truthy (audio ?t))"
    using loadAudio_playing(1) [OF c5 n5, of ?t ap] by (simp add: updatePlayButton_def emit_frame)
  have 5: "plays (trace ?q) = plays (trace p) + (if ap \<and> str_truthy (audio ?t) then 1 else 0)"
    using loadAudio_playing(2) [OF c5 n5, of ?t ap] t5(1)
    by (simp add: updatePlayButton_def emit_frame plays_append) (simp add: plays_def)
  from preloadAdjacentTracks_ok [of ?q k] 1 3 4 5 ne loadTrack_unfold [OF assms(1,2), of ap]
  show ?thesis by auto
qed

text \<open>The sources of the cache stay their keys, in every state the operations reach.\<close>

lemma set_evict_oldest: "set (evict_oldest c) \<subseteq> set c"
  by (cases c) (auto simp: evict_oldest_def map_delete_def map_keys_def)

lemma preloadTrack_src_ok:
  assumes "cache_src_ok p"
  shows "cache_src_ok (outcome_state (preloadTrack i p))"
  using preloadTrack_cases [of i p]
proof (elim disjE exE conjE)
  fix t u
  assume new: "js_nth (tracks p) i = Some t" "audio t = Some u" "u \<noteq> []"
    "\<not> map_has u (preloadCache p)"
  let ?c = "preloadCache p @ [(u, new_Audio\<lparr>preload := ''auto'', src := u\<rparr>)]"
  have "list_all (\<lambda>(u, a). src a = u) ?c"
    using assms by (simp add: cache_src_ok_def)
  then have "list_all (\<lambda>(u, a). src a = u) (evict_oldest ?c)"
    using set_evict_oldest [of ?c] unfolding list_all_iff by blast
  with preloadTrack_new_key [OF new] show ?thesis
    by (simp add: outcome_state_def emit_def cache_src_ok_def)
qed (use assms in \<open>simp_all add: outcome_state_def\<close>)

lemma preloadAdjacentTracks_src_ok:
  assumes "cache_src_ok p"
  shows "cache_src_ok (outcome_state (preloadAdjacentTracks p))"
proof -
  let ?a = "js_rem (js_add (currentTrackIndex p) (Idx 1)) (js_length (tracks p))"
  have ok1: "cache_src_ok (outcome_state (preloadTrack ?a p))"
    by (rule preloadTrack_src_ok [OF assms])
  show ?thesis
  proof (cases "preloadTrack ?a p")
    case (Inl e)
    with ok1 show ?thesis by (simp add: preloadAdjacentTracks_def and_then_def)
  next
    case (Inr p1)
    with ok1 have "cache_src_ok p1" by (simp add: outcome_state_def)
    from preloadTrack_src_ok [OF this] Inr show ?thesis
      by (simp add: preloadAdjacentTracks_def and_then_def Let_def)
  qed
qed

lemma loadTrack_src_ok:
  assumes "cache_src_ok p"
  shows "cache_src_ok (outcome_state (loadTrack i ap p))"
proof (cases "js_lt i (Idx 0) \<or> js_ge i (js_length (tracks p))")
  case True
  with assms show ?thesis by (simp add: loadTrack_def outcome_state_def)
next
  case guard: False
  show ?thesis
  proof (cases "js_nth (tracks p) i")
    case None
    with guard assms show ?thesis
      by (simp add: loadTrack_def outcome_state_def cache_src_ok_def)
  next
    case (Some t)
    let ?q = "updatePlayButton (loadAudio t ap (updateTheme (colors t) (updateTrackInfo t
         (updateAlbumArt (image t) (pause (p\<lparr>currentTrackIndex := i\<rparr>))))))"
    have "cache_src_ok ?q"
      using assms
      by (simp add: cache_src_ok_def updatePlayButton_def updateAlbumArt_def updateTrackInfo_def
          cache_frame pause_frame loadAudio_cache)
    from preloadAdjacentTracks_src_ok [OF this] guard Some show ?thesis
      by (simp add: loadTrack_def Let_def)
  qed
qed

section \<open>Circular order of the tracks\<close>

lemma nextTrack_step:
  assumes "currentTrackIndex p = Idx i" "0 \<le> i" "i < int (length (tracks p))"
  shows "\<exists>p'. nextTrack p = Inr p' \<and> tracks p' = tracks p
     \<and> currentTrackIndex p' = Idx ((i + 1) mod int (length (tracks p)))"
proof -
  let ?n = "int (length (tracks p))"
  have n: "0 < ?n" using assms by linarith
  have eq: "nextTrack p = loadTrack (Idx ((i + 1) mod ?n)) (isPlaying p) p"
    using js_rem_next [OF assms(2) n] assms(1) by (simp add: nextTrack_def js_length_def)
  have "0 \<le> (i + 1) mod ?n" "(i + 1) mod ?n < ?n" using n by simp_all
  from loadTrack_valid [OF this, of "isPlaying p"] eq show ?thesis by auto
qed

lemma previousTrack_step:
  assumes "currentTrackIndex p = Idx i" "0 \<le> i" "i < int (length (tracks p))"
  shows "\<exists>p'. previousTrack p = Inr p' \<and> tracks p' = tracks p
     \<and> currentTrackIndex p' = Idx ((i - 1) mod int (length (tracks p)))"
proof -
  let ?n = "int (length (tracks p))"
  have n: "0 < ?n" using assms by linarith
  have eq: "previousTrack p = loadTrack (Idx ((i - 1) mod ?n)) (isPlaying p) p"
    using js_rem_prev [OF assms(2) n] assms(1) by (simp add: previousTrack_def js_length_def)
  have "0 \<le> (i - 1) mod ?n" "(i - 1) mod ?n < ?n" using n by simp_all
  from loadTrack_valid [OF this, of "isPlaying p"] eq show ?thesis by auto
qed

lemma iterate_nextTrack:
  assumes "currentTrackIndex p = Idx i" "0 \<le> i" "i < int (length (tracks p))"
  shows "\<exists>p'. iterate m nextTrack p = Inr p' \<and> tracks p' = tracks p
     \<and> currentTrackIndex p' = Idx ((i + int m) mod int (length (tracks p)))"
  using assms
proof (induction m arbitrary: p i)
  case 0
  then show ?case by simp
next
  case (Suc m)
  let ?n = "int (length (tracks p))"
  have n: "0 < ?n" using Suc.prems by linarith
  from nextTrack_step [OF Suc.prems] obtain p1 where p1: "nextTrack p = Inr p1"
    "tracks p1 = tracks p" "currentTrackIndex p1 = Idx ((i + 1) mod ?n)" by blast
  have "0 \<le> (i + 1) mod ?n" "(i + 1) mod ?n < int (length (tracks p1))"
    using n p1(2) by simp_all
  from Suc.IH [OF p1(3) this] obtain p' where p': "iterate m nextTrack p1 = Inr p'"
    "tracks p' = tracks p1"
    "currentTrackIndex p' = Idx (((i + 1) mod ?n + int m) mod ?n)" using p1(2) by auto
  have "((i + 1) mod ?n + int m) mod ?n = (i + int (Suc m)) mod ?n"
  proof -
    have "((i + 1) mod ?n + int m) mod ?n = ((i + 1) + int m) mod ?n"
      by (rule mod_add_left_eq)
    then show ?thesis by (simp add: add.assoc)
  qed
  with p1 p' show ?case by (simp add: and_then_def)
qed

lemma iterate_previousTrack:
  assumes "currentTrackIndex p = Idx i" "0 \<le> i" "i < int (length (tracks p))"
  shows "\<exists>p'. iterate m previousTrack p = Inr p' \<and> tracks p' = tracks p
     \<and> currentTrackIndex p' = Idx ((i - int m) mod int (length (tracks p)))"
  using assms
proof (induction m arbitrary: p i)
  case 0
  then show ?case by simp
next
  case (Suc m)
  let ?n = "int (length (tracks p))"
  have n: "0 < ?n" using Suc.prems by linarith
  from previousTrack_step [OF Suc.prems] obtain p1 where p1: "previousTrack p = Inr p1"
    "tracks p1 = tracks p" "currentTrackIndex p1 = Idx ((i - 1) mod ?n)" by blast
  have "0 \<le> (i - 1) mod ?n" "(i - 1) mod ?n < int (length (tracks p1))"
    using n p1(2) by simp_all
  from Suc.IH [OF p1(3) this] obtain p' where p': "iterate m previousTrack p1 = Inr p'"
    "tracks p' = tracks p1"
    "currentTrackIndex p' = Idx (((i - 1) mod ?n - int m) mod ?n)" using p1(2) by auto
  have "((i - 1) mod ?n - int m) mod ?n = (i - int (Suc m)) mod ?n"
    by (simp add: mod_diff_left_eq algebra_simps)
  with p1 p' show ?case by (simp add: and_then_def)
qed

text \<open>
  Claim C4. With at least one track and the current index \<open>i\<close> in range, calling
  \<open>nextTrack\<close> as many times as there are tracks succeeds and brings the index back to
  \<open>i\<close>, and so does \<open>previousTrack\<close>; one call moves the index to \<open>(i + 1) mod N\<close>,
  respectively \<open>(i - 1) mod N\<close>.
\<close>

theorem next_previous_cycle:
  assumes "tracks p \<noteq> []" "currentTrackIndex p = Idx i" "0 \<le> i" "i < int (length (tracks p))"
  shows "(\<exists>p'. iterate (length (tracks p)) nextTrack p = Inr p' \<and> currentTrackIndex p' = Idx i)
    \<and> (\<exists>p'. iterate (length (tracks p)) previousTrack p = Inr p' \<and> currentTrackIndex p' = Idx i)
    \<and> (\<exists>p'. nextTrack p = Inr p'
          \<and> currentTrackIndex p' = Idx ((i + 1) mod int (length (tracks p))))
    \<and> (\<exists>p'. previousTrack p = Inr p'
          \<and> currentTrackIndex p' = Idx ((i - 1) mod int (length (tracks p))))"
proof -
  have "(i + int (length (tracks p))) mod int (length (tracks p)) = i"
    "(i - int (length (tracks p))) mod int (length (tracks p)) = i"
    using assms(3,4) by simp_all
  with iterate_nextTrack [OF assms(2-4), of "length (tracks p)"]
    iterate_previousTrack [OF assms(2-4), of "length (tracks p)"]
    nextTrack_step [OF assms(2-4)] previousTrack_step [OF assms(2-4)]
  show ?thesis by auto
qed

theorem next_previous_cycle_witness:
  "tracks demo_loaded \<noteq> [] \<and> currentTrackIndex demo_loaded = Idx 2
   \<and> length (tracks demo_loaded) = 4
   \<and> (\<exists>p'. iterate 4 nextTrack demo_loaded = Inr p' \<and> currentTrackIndex p' = Idx 2)
   \<and> (\<exists>p'. iterate 4 previousTrack demo_loaded = Inr p' \<and> currentTrackIndex p' = Idx 2)
   \<and> (\<exists>p'. nextTrack demo_loaded = Inr p' \<and> currentTrackIndex p' = Idx 3)
   \<and> (\<exists>p'. previousTrack demo_loaded = Inr p' \<and> currentTrackIndex p' = Idx 1)"
proof -
  have t: "tracks demo_loaded = tracks demo_four"
    unfolding demo_loaded_def by code_simp
  have n: "tracks demo_loaded \<noteq> []" "length (tracks demo_loaded) = 4"
    by (simp_all add: t demo_four_def demo_player_def)
  have c: "currentTrackIndex demo_loaded = Idx 2"
    unfolding demo_loaded_def by code_simp
  have b: "(0::int) \<le> 2" "2 < int (length (tracks demo_loaded))"
    by (simp_all add: n)
  from next_previous_cycle [OF n(1) c b] n c show ?thesis by simp
qed

section \<open>Advancing at the end of a track\<close>

lemma cache_src_ok_new_Player: "cache_src_ok (new_Player host)"
  by (simp add: cache_src_ok_def new_Player_def)

text \<open>
  Claim C5, as stated, fails where the next track has no audio: the engine was playing,
  the listener advances once and wraps to index 0, and nothing plays.
\<close>

theorem ended_no_audio_counterexample:
  "isPlaying demo_two_playing_last
   \<and> currentTrackIndex demo_two_playing_last = Idx 1
   \<and> \<not> threw (on_ended demo_two_playing_last)
   \<and> currentTrackIndex (outcome_state (on_ended demo_two_playing_last)) = Idx 0
   \<and> \<not> isPlaying (outcome_state (on_ended demo_two_playing_last))
   \<and> plays (trace (outcome_state (on_ended demo_two_playing_last)))
       = plays (trace demo_two_playing_last)"
  unfolding demo_two_playing_last_def by code_simp

text \<open>
  Claim C5, amended. An \<open>ended\<close> signal makes one call of \<open>nextTrack\<close>, which is one
  call of \<open>loadTrack\<close> with the next index and the current \<open>isPlaying\<close> as autoplay
  hint: one track is shown, the index moves by one and wraps from the last index to 0,
  and the new track plays exactly when the engine was playing and the new track has an
  audio reference.
\<close>

theorem ended_advances_once:
  assumes "currentTrackIndex p = Idx i" "0 \<le> i" "i < int (length (tracks p))" "cache_src_ok p"
  shows "\<exists>p'. on_ended p = Inr p'
     \<and> on_ended p = loadTrack (Idx ((i + 1) mod int (length (tracks p)))) (isPlaying p) p
     \<and> loads (trace p') = loads (trace p) + 1
     \<and> currentTrackIndex p' = (if i = int (length (tracks p)) - 1 then Idx 0 else Idx (i + 1))
     \<and> isPlaying p'
         = (isPlaying p \<and> str_truthy (audio (tracks p ! nat ((i + 1) mod int (length (tracks p))))))
     \<and> plays (trace p') = plays (trace p)
         + (if isPlaying p \<and> str_truthy (audio (tracks p ! nat ((i + 1) mod int (length (tracks p)))))
            then 1 else 0)"
proof -
  let ?n = "int (length (tracks p))"
  have n: "0 < ?n" using assms by linarith
  have eq: "on_ended p = loadTrack (Idx ((i + 1) mod ?n)) (isPlaying p) p"
    using js_rem_next [OF assms(2) n] assms(1)
    by (simp add: on_ended_def nextTrack_def js_length_def)
  have r: "0 \<le> (i + 1) mod ?n" "(i + 1) mod ?n < ?n" using n by simp_all
  have w: "(i + 1) mod ?n = (if i = ?n - 1 then 0 else i + 1)"
    using assms(2,3) by simp
  from loadTrack_valid_playing [OF r assms(4), of "isPlaying p"] eq w show ?thesis
    by auto
qed

theorem ended_advances_once_witness:
  "currentTrackIndex demo_four_playing_last = Idx 3
   \<and> length (tracks demo_four_playing_last) = 4
   \<and> cache_src_ok demo_four_playing_last
   \<and> isPlaying demo_four_playing_last
   \<and> (\<exists>p'. on_ended demo_four_playing_last = Inr p'
        \<and> loads (trace p') = loads (trace demo_four_playing_last) + 1
        \<and> currentTrackIndex p' = Idx 0
        \<and> isPlaying p'
        \<and> plays (trace p') = plays (trace demo_four_playing_last) + 1)"
proof -
  have c: "currentTrackIndex demo_four_playing_last = Idx 3"
    unfolding demo_four_playing_last_def by code_simp
  have t: "tracks demo_four_playing_last = tracks demo_four"
    unfolding demo_four_playing_last_def by code_simp
  have n: "length (tracks demo_four_playing_last) = 4"
    by (simp add: t demo_four_def demo_player_def)
  have s: "cache_src_ok demo_four_playing_last"
    unfolding demo_four_playing_last_def by code_simp
  have pl: "isPlaying demo_four_playing_last"
    unfolding demo_four_playing_last_def by code_simp
  have a: "str_truthy (audio (tracks demo_four_playing_last ! 0))"
    by (simp add: t demo_four_def demo_player_def demo_track_def)
  have b: "(0::int) \<le> 3" "3 < int (length (tracks demo_four_playing_last))"
    by (simp_all add: n)
  from ended_advances_once [OF c b s] n a pl c s show ?thesis by auto
qed

section \<open>Starting playback on a suspended audio graph\<close>

text \<open>
  Claim C2, as stated, fails: after \<open>play()\<close> on a suspended graph the engine reports
  playing, the resume has been requested and has not completed, and the graph is still
  suspended.
\<close>

theorem play_reports_playing_before_resume_counterexample:
  "src (player_audio demo_one_ready) \<noteq> []
   \<and> map_option audioContext (visualizer demo_one_ready) = Some (Some Suspended)
   \<and> isPlaying (play demo_one_ready)
   \<and> map_option audioContext (visualizer (play demo_one_ready)) = Some (Some Suspended)
   \<and> CtxResume \<in> set (trace (play demo_one_ready))
   \<and> CtxResumed \<notin> set (trace (play demo_one_ready))"
  unfolding demo_one_ready_def by code_simp

text \<open>
  Claim C2, amended. With a source bound and the graph suspended, \<open>play()\<close> requests the
  resume, calls \<open>audio.play()\<close> and sets \<open>isPlaying\<close> in one synchronous run, without
  waiting: on return the engine reports playing and the graph is still suspended. The
  resume completes afterwards and leaves \<open>isPlaying\<close> as it is.
\<close>

theorem play_does_not_wait_for_resume:
  assumes "src (player_audio p) \<noteq> []" "visualizer p = Some v" "audioContext v = Some Suspended"
  shows "isPlaying (play p) \<and> visualizer (play p) = Some v
     \<and> trace (play p)
         = trace p @ [CtxResume, AudioPlay, UpdatePlayButton True, UpdateRecordRotation True]
     \<and> isPlaying (resume_fulfilled (play p))
     \<and> visualizer (resume_fulfilled (play p)) = Some (v\<lparr>audioContext := Some Running\<rparr>)
     \<and> trace (resume_fulfilled (play p)) = trace (play p) @ [CtxResumed]"
  using assms
  by (simp add: play_def resume_fulfilled_def updatePlayButton_def updateRecordRotation_def
      emit_def Let_def)

theorem play_does_not_wait_for_resume_witness:
  "src (player_audio demo_one_ready) \<noteq> []
   \<and> map_option audioContext (visualizer demo_one_ready) = Some (Some Suspended)
   \<and> isPlaying (play demo_one_ready)
   \<and> visualizer (play demo_one_ready) = visualizer demo_one_ready
   \<and> trace (play demo_one_ready)
       = trace demo_one_ready @ [CtxResume, AudioPlay, UpdatePlayButton True, UpdateRecordRotation True]
   \<and> map_option audioContext (visualizer (resume_fulfilled (play demo_one_ready)))
       = Some (Some Running)"
proof -
  have s: "src (player_audio demo_one_ready) \<noteq> []"
    unfolding demo_one_ready_def by code_simp
  have "map_option audioContext (visualizer demo_one_ready) = Some (Some Suspended)"
    unfolding demo_one_ready_def by code_simp
  then obtain v where v: "visualizer demo_one_ready = Some v" "audioContext v = Some Suspended"
    by (cases "visualizer demo_one_ready") auto
  from play_does_not_wait_for_resume [OF s v] s v show ?thesis by simp
qed

section \<open>Seeking\<close>

text \<open>
  Claim C6. With a known duration \<open>d\<close>, \<open>seek(percent)\<close> leaves the position at
  \<open>percent / 100 * d\<close>, for every finite percentage and so for those in \<open>[0, 100]\<close>; the
  position of a media element lies between 0 and its duration, which matters only for
  a duration of 0, where the code changes nothing and the position is 0 already.
  \<open>seek(50)\<close> on a duration of 200 gives 100. With the duration unknown (\<open>NaN\<close>), \<open>seek\<close>
  returns the state unchanged. Numbers are real numbers here, not doubles.
\<close>

theorem seek_sets_position:
  "(duration (player_audio p) = Fin d \<and> currentTime (player_audio p) = Fin t
      \<and> 0 \<le> t \<and> t \<le> d \<longrightarrow>
      (\<exists>p'. seek (Fin pc) p = Inr p'
         \<and> currentTime (player_audio p') = Fin ((pc / 100) * d)
         \<and> p' = p\<lparr>player_audio := (player_audio p)\<lparr>currentTime := Fin ((pc / 100) * d)\<rparr>\<rparr>))
   \<and> (duration (player_audio p) = Fin 200 \<longrightarrow>
      (\<exists>p'. seek (Fin 50) p = Inr p' \<and> currentTime (player_audio p') = Fin 100))
   \<and> (duration (player_audio p) = NaN \<longrightarrow> seek percent p = Inr p)"
  by (auto simp: seek_def)

theorem seek_sets_position_witness:
  "duration (player_audio (metadata_loaded 200 demo_one_ready)) = Fin 200
   \<and> currentTime (player_audio (metadata_loaded 200 demo_one_ready)) = Fin 0
   \<and> (\<exists>p'. seek (Fin 50) (metadata_loaded 200 demo_one_ready) = Inr p'
         \<and> currentTime (player_audio p') = Fin 100)
   \<and> (\<exists>p'. seek (Fin 25) (metadata_loaded 200 demo_one_ready) = Inr p'
         \<and> currentTime (player_audio p') = Fin 50)
   \<and> duration (player_audio demo_one_ready) = NaN
   \<and> seek (Fin 50) demo_one_ready = Inr demo_one_ready"
proof -
  have d: "duration (player_audio (metadata_loaded 200 demo_one_ready)) = Fin 200"
    by (simp add: metadata_loaded_def)
  have "currentTime (player_audio demo_one_ready) = Fin 0"
    unfolding demo_one_ready_def by code_simp
  then have t: "currentTime (player_audio (metadata_loaded 200 demo_one_ready)) = Fin 0"
    by (simp add: metadata_loaded_def)
  have u: "duration (player_audio demo_one_ready) = NaN"
    unfolding demo_one_ready_def by code_simp
  note a = seek_sets_position [where p = "metadata_loaded 200 demo_one_ready" and d = 200 and t = 0
      and pc = 25]
  note b = seek_sets_position [where p = demo_one_ready and percent = "Fin 50"]
  have 1: "\<exists>p'. seek (Fin 25) (metadata_loaded 200 demo_one_ready) = Inr p'
         \<and> currentTime (player_audio p') = Fin 50"
    using a [THEN conjunct1] d t by auto
  have 2: "\<exists>p'. seek (Fin 50) (metadata_loaded 200 demo_one_ready) = Inr p'
         \<and> currentTime (player_audio p') = Fin 100"
    using a [THEN conjunct2, THEN conjunct1] d by auto
  have 3: "seek (Fin 50) demo_one_ready = Inr demo_one_ready"
    using b [THEN conjunct2, THEN conjunct2] u by simp
  show ?thesis using d t u 1 2 3 by blast
qed

section \<open>Frames of the waveform history\<close>

lemma length_waveformData: "length (waveformData d) = 32"
  by (simp add: waveformData_def)

lemma sample_index_in_range:
  assumes "d \<noteq> []" "i < 32"
  shows "i * (length d div 32) < length d"
proof (cases "length d div 32 = 0")
  case True
  with assms show ?thesis by simp
next
  case False
  have "i * (length d div 32) < 32 * (length d div 32)"
    using assms(2) False by simp
  also have "\<dots> \<le> length d" by simp
  finally show ?thesis .
qed

lemma waveformData_nth:
  assumes "i < 32"
  shows "waveformData d ! i = sample_or_zero d (i * (length d div 32))"
  using assms by (simp add: waveformData_def)

lemma length_getByteFrequencyData: "length (getByteFrequencyData bins d) = length d"
  by (simp add: getByteFrequencyData_def)

lemma connectAudio_bins:
  "audioContext v = None \<Longrightarrow>
   dataArray (connectAudio (Some st) v) = Some (replicate 256 0)"
  by (simp add: connectAudio_def frequencyBinCount_def fftSize_def)

text \<open>A tick of a connected, active visualizer pushes the frame of the bins just read.\<close>

lemma animate_pushes_frame:
  assumes "isActive v" "audioContext v = Some st" "dataArray v = Some d"
  shows "animate bins w h now v
     = Inr (v\<lparr>dataArray := Some (getByteFrequencyData bins d),
              waveformHistory :=
                (let h1 = waveformData (getByteFrequencyData bins d) # waveformHistory v
                 in if length h1 > maxHistory v then butlast h1 else h1)\<rparr>, PulseLine)"
  using assms by (simp add: animate_def drawPulseLine_def Let_def)

text \<open>
  Claim C8. \<open>drawPulseLine\<close> pushes one frame of exactly 32 samples to the front of the
  history and cuts the history to \<open>maxHistory\<close> (100 in the constructor; the history
  never exceeds it before the push). Sample \<open>i\<close> is the byte of bin
  \<open>i * floor(binCount / 32)\<close>, a bin that exists whenever there is any bin; with the 256
  bins of a transform size of 512 it is bin \<open>8 * i\<close>.
\<close>

theorem pulse_frame_shape:
  assumes "dataArray v = Some d" "length (waveformHistory v) \<le> maxHistory v" "0 < maxHistory v"
  shows "\<exists>v'. drawPulseLine v = Inr v'
     \<and> waveformHistory v' = take (maxHistory v) (waveformData d # waveformHistory v)
     \<and> hd (waveformHistory v') = waveformData d
     \<and> length (waveformHistory v') \<le> maxHistory v'
     \<and> length (waveformData d) = 32
     \<and> (d \<noteq> [] \<longrightarrow> (\<forall>i<32. i * (length d div 32) < length d
            \<and> waveformData d ! i = unat (d ! (i * (length d div 32)))))
     \<and> (length d = frequencyBinCount \<longrightarrow> (\<forall>i<32. waveformData d ! i = unat (d ! (i * 8))))"
proof -
  let ?h1 = "waveformData d # waveformHistory v"
  let ?h2 = "if length ?h1 > maxHistory v then butlast ?h1 else ?h1"
  have eq: "drawPulseLine v = Inr (v\<lparr>waveformHistory := ?h2\<rparr>)"
    using assms(1) by (simp add: drawPulseLine_def Let_def)
  have tk: "?h2 = take (maxHistory v) ?h1"
  proof (cases "length ?h1 > maxHistory v")
    case True
    with assms(2) have "maxHistory v = length ?h1 - 1" by simp
    with True show ?thesis by (simp only: if_True butlast_conv_take)
  next
    case False
    then show ?thesis by simp
  qed
  have hd: "hd ?h2 = waveformData d"
    using assms(3) by (cases "maxHistory v") (simp_all add: tk)
  have len: "length ?h2 \<le> maxHistory v"
    by (simp only: tk) simp
  have gen: "\<forall>i<32. i * (length d div 32) < length d
            \<and> waveformData d ! i = unat (d ! (i * (length d div 32)))" if "d \<noteq> []"
    using sample_index_in_range [OF that] by (simp add: waveformData_nth sample_or_zero_def)
  have bins: "\<forall>i<32. waveformData d ! i = unat (d ! (i * 8))" if "length d = frequencyBinCount"
  proof -
    from that have l: "length d = 256" by (simp add: frequencyBinCount_def fftSize_def)
    then have "d \<noteq> []" by auto
    from gen [OF this] l show ?thesis by simp
  qed
  show ?thesis
    using eq tk hd len gen bins length_waveformData [of d] by (simp del: take_Cons')
qed

theorem pulse_frame_shape_witness:
  "dataArray demo_visualizer = Some demo_spectrum
   \<and> length demo_spectrum = frequencyBinCount
   \<and> length (waveformHistory demo_visualizer) \<le> maxHistory demo_visualizer
   \<and> (\<exists>v'. drawPulseLine demo_visualizer = Inr v'
        \<and> waveformHistory v' = [waveformData demo_spectrum]
        \<and> length (waveformData demo_spectrum) = 32
        \<and> waveformData demo_spectrum ! 3 = 24)"
proof -
  have d: "dataArray demo_visualizer = Some demo_spectrum"
    by (simp add: demo_visualizer_def)
  have h: "waveformHistory demo_visualizer = []" "maxHistory demo_visualizer = 100"
    by (simp_all add: demo_visualizer_def connectAudio_def new_AudioVisualizer_def)
  have l: "length demo_spectrum = frequencyBinCount"
    by (simp add: demo_spectrum_def frequencyBinCount_def fftSize_def)
  have ne: "demo_spectrum \<noteq> []"
    using l by (auto simp: frequencyBinCount_def fftSize_def)
  have s: "unat (demo_spectrum ! (3 * 8)) = 24"
    by (simp add: demo_spectrum_def)
  have a: "length (waveformHistory demo_visualizer) \<le> maxHistory demo_visualizer"
    "0 < maxHistory demo_visualizer" by (simp_all add: h)
  from pulse_frame_shape [OF d a] obtain v' where v': "drawPulseLine demo_visualizer = Inr v'"
    "waveformHistory v' = take (maxHistory demo_visualizer)
       (waveformData demo_spectrum # waveformHistory demo_visualizer)"
    "length (waveformData demo_spectrum) = 32"
    "length demo_spectrum = frequencyBinCount \<longrightarrow>
       (\<forall>i<32. waveformData demo_spectrum ! i = unat (demo_spectrum ! (i * 8)))"
    by blast
  from v'(4) l have "waveformData demo_spectrum ! 3 = unat (demo_spectrum ! (3 * 8))" by simp
  with s v' h d l a show ?thesis by simp
qed

section \<open>The idle pulse\<close>

lemma sin_shift_sum:
  fixes x h :: real
  shows "sin (x + h) + sin (x - h) = 2 * cos h * sin x"
  by (simp add: sin_add sin_diff)

lemma two_tone_not_constant:
  fixes a b h c :: real
  assumes h: "0 < h" "2 * h < pi"
    and e0: "10 * sin a + 5 * sin b = c"
    and e1: "10 * sin (a + h) + 5 * sin (b + 2 * h) = c"
    and e2: "10 * sin (a + 2 * h) + 5 * sin (b + 4 * h) = c"
    and e3: "10 * sin (a + 3 * h) + 5 * sin (b + 6 * h) = c"
    and e4: "10 * sin (a + 4 * h) + 5 * sin (b + 8 * h) = c"
  shows False
proof -
  define A where "A = cos h"
  define B where "B = cos (2 * h)"
  have AB: "B < A"
    unfolding A_def B_def using h by (intro cos_monotone_0_pi) simp_all
  have B1: "B < 1"
  proof -
    have "cos (2 * h) < cos 0" using h by (intro cos_monotone_0_pi) simp_all
    then show ?thesis by (simp add: B_def)
  qed
  have S: "0 < sin (2 * h)" using h by (intro sin_gt_zero) simp_all
  have a1: "sin (a + 2 * h) + sin a = 2 * A * sin (a + h)"
    using sin_shift_sum [of "a + h" h] by (simp add: A_def algebra_simps)
  have a2: "sin (a + 3 * h) + sin (a + h) = 2 * A * sin (a + 2 * h)"
    using sin_shift_sum [of "a + 2 * h" h] by (simp add: A_def algebra_simps)
  have a3: "sin (a + 4 * h) + sin (a + 2 * h) = 2 * A * sin (a + 3 * h)"
    using sin_shift_sum [of "a + 3 * h" h] by (simp add: A_def algebra_simps)
  have b1: "sin (b + 4 * h) + sin b = 2 * B * sin (b + 2 * h)"
    using sin_shift_sum [of "b + 2 * h" "2 * h"] by (simp add: B_def algebra_simps)
  have b2: "sin (b + 6 * h) + sin (b + 2 * h) = 2 * B * sin (b + 4 * h)"
    using sin_shift_sum [of "b + 4 * h" "2 * h"] by (simp add: B_def algebra_simps)
  have b3: "sin (b + 8 * h) + sin (b + 4 * h) = 2 * B * sin (b + 6 * h)"
    using sin_shift_sum [of "b + 6 * h" "2 * h"] by (simp add: B_def algebra_simps)
  have r1: "10 * (B - A) * sin (b + 2 * h) = 2 * c * (1 - A)"
  proof -
    have "10 * (sin (a + 2 * h) + sin a) + 5 * (sin (b + 4 * h) + sin b)
        - 2 * A * (10 * sin (a + h) + 5 * sin (b + 2 * h)) = c + c - 2 * A * c"
      using e0 e1 e2 by (simp add: algebra_simps)
    then show ?thesis unfolding a1 b1 by (simp add: algebra_simps)
  qed
  have r2: "10 * (B - A) * sin (b + 4 * h) = 2 * c * (1 - A)"
  proof -
    have "10 * (sin (a + 3 * h) + sin (a + h)) + 5 * (sin (b + 6 * h) + sin (b + 2 * h))
        - 2 * A * (10 * sin (a + 2 * h) + 5 * sin (b + 4 * h)) = c + c - 2 * A * c"
      using e1 e2 e3 by (simp add: algebra_simps)
    then show ?thesis unfolding a2 b2 by (simp add: algebra_simps)
  qed
  have r3: "10 * (B - A) * sin (b + 6 * h) = 2 * c * (1 - A)"
  proof -
    have "10 * (sin (a + 4 * h) + sin (a + 2 * h)) + 5 * (sin (b + 8 * h) + sin (b + 4 * h))
        - 2 * A * (10 * sin (a + 3 * h) + 5 * sin (b + 6 * h)) = c + c - 2 * A * c"
      using e2 e3 e4 by (simp add: algebra_simps)
    then show ?thesis unfolding a3 b3 by (simp add: algebra_simps)
  qed
  have ne: "10 * (B - A) \<noteq> 0" using AB by simp
  have k12: "sin (b + 2 * h) = sin (b + 4 * h)"
    using r1 r2 ne by (metis mult_cancel_left)
  have k23: "sin (b + 6 * h) = sin (b + 4 * h)"
    using r3 r2 ne by (metis mult_cancel_left)
  have "2 * sin (b + 4 * h) = 2 * B * sin (b + 4 * h)"
    using b2 k12 k23 by simp
  then have "(1 - B) * sin (b + 4 * h) = 0" by (simp add: algebra_simps)
  with B1 have z4: "sin (b + 4 * h) = 0" by simp
  with k12 have z2: "sin (b + 2 * h) = 0" by simp
  have "sin (2 * h) = sin ((b + 4 * h) - (b + 2 * h))" by simp
  also have "\<dots> = sin (b + 4 * h) * cos (b + 2 * h) - cos (b + 4 * h) * sin (b + 2 * h)"
    by (rule sin_diff)
  also have "\<dots> = 0" by (simp add: z2 z4)
  finally show False using S by simp
qed

lemma drawIdlePulse_nth:
  assumes "i < 50"
  shows "drawIdlePulse w h now ! i
     = (real i * (or_300 w / 49),
        or_300 h / 2 + sin (real i * 0.1 + now * 0.002) * 10
          + sin (real i * 0.2 - now * 0.002 * 1.5) * 5)"
  using assms by (simp add: drawIdlePulse_def Let_def)

lemma idle_offset_nth:
  assumes "i < 50"
  shows "snd (drawIdlePulse w h now ! i)
     = or_300 h / 2 + sin (real i * 0.1 + now * 0.002) * 10
          + sin (real i * 0.2 - now * 0.002 * 1.5) * 5"
  by (simp only: drawIdlePulse_nth [OF assms] snd_conv)

lemma idle_offsets_differ:
  "\<exists>i<50. \<exists>j<50. snd (drawIdlePulse w h now ! i) \<noteq> snd (drawIdlePulse w h now ! j)"
proof (rule ccontr)
  assume contra: "\<not> ?thesis"
  have same: "snd (drawIdlePulse w h now ! i) = snd (drawIdlePulse w h now ! 0)"
    if "i < 50" for i
  proof (rule ccontr)
    assume "snd (drawIdlePulse w h now ! i) \<noteq> snd (drawIdlePulse w h now ! 0)"
    with that have "\<exists>i<50. \<exists>j<50. snd (drawIdlePulse w h now ! i) \<noteq> snd (drawIdlePulse w h now ! j)"
      by (intro exI [of _ i] exI [of _ 0] conjI) simp_all
    with contra show False ..
  qed
  define T where "T = now * 0.002"
  define U where "U = - (T * 1.5)"
  define c where "c = 10 * sin T + 5 * sin U"
  have e: "10 * sin (real i * 0.1 + T) + 5 * sin (real i * 0.2 + U) = c" if "i < 50" for i
  proof -
    have "or_300 h / 2 + sin (real i * 0.1 + T) * 10 + sin (real i * 0.2 + U) * 5
        = or_300 h / 2 + sin (real 0 * 0.1 + T) * 10 + sin (real 0 * 0.2 + U) * 5"
      using same [OF that] unfolding idle_offset_nth [OF that] idle_offset_nth [of 0, simplified]
      by (simp add: T_def U_def)
    then show ?thesis by (simp add: c_def)
  qed
  have h: "(0::real) < 1 / 10" "2 * (1 / 10) < pi"
    using pi_ge_two by simp_all
  have e0: "10 * sin T + 5 * sin U = c" by (simp add: c_def)
  have e1: "10 * sin (T + 1 / 10) + 5 * sin (U + 2 * (1 / 10)) = c"
    using e [of 1] by (simp add: add.commute)
  have e2: "10 * sin (T + 2 * (1 / 10)) + 5 * sin (U + 4 * (1 / 10)) = c"
    using e [of 2] by (simp add: add.commute)
  have e3: "10 * sin (T + 3 * (1 / 10)) + 5 * sin (U + 6 * (1 / 10)) = c"
    using e [of 3] by (simp add: add.commute)
  have e4: "10 * sin (T + 4 * (1 / 10)) + 5 * sin (U + 8 * (1 / 10)) = c"
    using e [of 4] by (simp add: add.commute)
  from two_tone_not_constant [OF h e0 e1 e2 e3 e4] show False .
qed

text \<open>
  Claim C9. An active visualizer without audio context or data array draws the idle
  pulse on each tick: 50 points, point \<open>i\<close> at \<open>x = i * width / 49\<close>, its offset from the
  centre line \<open>10 sin(0.1 i + t) + 5 sin(0.2 i - 1.5 t)\<close> with \<open>t = 0.002 * Date.now()\<close>.
  At every clock value the 50 offsets are not all equal. The sines are those of the real
  numbers, not of doubles.
\<close>

theorem idle_pulse_shape:
  "length (drawIdlePulse w h now) = 50
   \<and> (\<forall>i<50. drawIdlePulse w h now ! i
         = (real i * (or_300 w / 49),
            or_300 h / 2 + sin (real i * 0.1 + now * 0.002) * 10
              + sin (real i * 0.2 - now * 0.002 * 1.5) * 5))
   \<and> (\<exists>i<50. \<exists>j<50. snd (drawIdlePulse w h now ! i) \<noteq> snd (drawIdlePulse w h now ! j))
   \<and> (isActive v \<and> (audioContext v = None \<or> dataArray v = None) \<longrightarrow>
        animate bins w h now v = Inr (v, IdlePulse (drawIdlePulse w h now)))"
proof (intro conjI)
  show "length (drawIdlePulse w h now) = 50"
    by (simp add: drawIdlePulse_def Let_def)
  show "\<forall>i<50. drawIdlePulse w h now ! i
         = (real i * (or_300 w / 49),
            or_300 h / 2 + sin (real i * 0.1 + now * 0.002) * 10
              + sin (real i * 0.2 - now * 0.002 * 1.5) * 5)"
    using drawIdlePulse_nth by blast
  show "\<exists>i<50. \<exists>j<50. snd (drawIdlePulse w h now ! i) \<noteq> snd (drawIdlePulse w h now ! j)"
    by (rule idle_offsets_differ)
  show "isActive v \<and> (audioContext v = None \<or> dataArray v = None) \<longrightarrow>
        animate bins w h now v = Inr (v, IdlePulse (drawIdlePulse w h now))"
    by (auto simp: animate_def split: option.splits)
qed

theorem idle_pulse_shape_witness:
  "isActive (new_AudioVisualizer\<lparr>isActive := True\<rparr>)
   \<and> audioContext (new_AudioVisualizer\<lparr>isActive := True\<rparr>) = None
   \<and> animate [] 0 0 1000 (new_AudioVisualizer\<lparr>isActive := True\<rparr>)
       = Inr (new_AudioVisualizer\<lparr>isActive := True\<rparr>, IdlePulse (drawIdlePulse 0 0 1000))
   \<and> (10::nat) < 50
   \<and> drawIdlePulse 0 0 1000 ! 10 = (3000 / 49, 150 + sin 3 * 10 + sin (- 1) * 5)"
proof -
  note t = idle_pulse_shape [of 0 0 1000 "new_AudioVisualizer\<lparr>isActive := True\<rparr>" "[]"]
  have a: "isActive (new_AudioVisualizer\<lparr>isActive := True\<rparr>)"
    "audioContext (new_AudioVisualizer\<lparr>isActive := True\<rparr>) = None"
    by (simp_all add: new_AudioVisualizer_def)
  have 1: "animate [] 0 0 1000 (new_AudioVisualizer\<lparr>isActive := True\<rparr>)
       = Inr (new_AudioVisualizer\<lparr>isActive := True\<rparr>, IdlePulse (drawIdlePulse 0 0 1000))"
    using t [THEN conjunct2, THEN conjunct2, THEN conjunct2] a by simp
  have "drawIdlePulse 0 0 1000 ! 10
         = (real 10 * (or_300 0 / 49),
            or_300 0 / 2 + sin (real 10 * 0.1 + 1000 * 0.002) * 10
              + sin (real 10 * 0.2 - 1000 * 0.002 * 1.5) * 5)"
    using t [THEN conjunct2, THEN conjunct1, rule_format, of 10] by simp
  then have 2: "drawIdlePulse 0 0 1000 ! 10 = (3000 / 49, 150 + sin 3 * 10 + sin (- 1) * 5)"
    by (simp add: or_300_def)
  show ?thesis using a 1 2 by simp
qed

section \<open>Formatting a time\<close>

lemma digit_char_0: "digit_char 0 = CHR ''0''"
  by (simp add: digit_char_def)

lemma pad_two_digits:
  assumes "k < 60"
  shows "padStart 2 (CHR ''0'') (dec_nat k) = [digit_char (k div 10), digit_char (k mod 10)]"
proof (cases "k < 10")
  case True
  then show ?thesis by (simp add: padStart_def dec_nat.simps digit_char_0)
next
  case False
  with assms have "k div 10 < 10" by simp
  with False show ?thesis
    by (simp add: padStart_def dec_nat.simps [of k] dec_nat.simps [of "k div 10"])
qed

lemma js_fmod_pos:
  assumes "0 < s"
  shows "js_fmod s 60 = s - 60 * of_int \<lfloor>s / 60\<rfloor>"
  using assms by (simp add: js_fmod_def)

lemma secs_range:
  fixes s :: real
  shows "0 \<le> \<lfloor>s - 60 * of_int \<lfloor>s / 60\<rfloor>\<rfloor>" "\<lfloor>s - 60 * of_int \<lfloor>s / 60\<rfloor>\<rfloor> < 60"
proof -
  have a: "of_int \<lfloor>s / 60\<rfloor> \<le> s / 60" by (rule of_int_floor_le)
  have b: "s / 60 < of_int \<lfloor>s / 60\<rfloor> + 1" by linarith
  from a have "0 \<le> s - 60 * of_int \<lfloor>s / 60\<rfloor>" by linarith
  then show "0 \<le> \<lfloor>s - 60 * of_int \<lfloor>s / 60\<rfloor>\<rfloor>" by simp
  from b have "s - 60 * of_int \<lfloor>s / 60\<rfloor> < of_int 60" by linarith
  then show "\<lfloor>s - 60 * of_int \<lfloor>s / 60\<rfloor>\<rfloor> < 60" by (simp only: floor_less_iff)
qed

lemma num_toString_small:
  assumes "0 \<le> k" "k < 2 ^ 53"
  shows "num_toString h k = dec_nat (nat k)"
  using assms by (simp add: num_toString_def)

lemma formatTime_pos:
  assumes "0 < s"
  shows "formatTime h (JNumber (Fin s))
     = num_toString h (floor_div60 h s) @ '':''
       @ [digit_char (nat \<lfloor>s - 60 * of_int \<lfloor>s / 60\<rfloor>\<rfloor> div 10),
          digit_char (nat \<lfloor>s - 60 * of_int \<lfloor>s / 60\<rfloor>\<rfloor> mod 10)]"
proof -
  let ?k = "\<lfloor>s - 60 * of_int \<lfloor>s / 60\<rfloor>\<rfloor>"
  have k: "0 \<le> ?k" "?k < 60" by (rule secs_range)+
  then have k60: "nat ?k < 60" by linarith
  have k53: "?k < 2 ^ 53" using k(2) by simp
  have "formatTime h (JNumber (Fin s))
      = num_toString h (floor_div60 h s) @ '':'' @ padStart 2 (CHR ''0'') (num_toString h ?k)"
    using assms by (simp add: formatTime_def js_fmod_pos Let_def)
  also have "num_toString h ?k = dec_nat (nat ?k)"
    by (rule num_toString_small [OF k(1) k53])
  also have "padStart 2 (CHR ''0'') (dec_nat (nat ?k))
      = [digit_char (nat ?k div 10), digit_char (nat ?k mod 10)]"
    by (rule pad_two_digits [OF k60])
  finally show ?thesis .
qed

lemma minutes_small:
  assumes "0 < s" "s < 2 ^ 52"
  shows "num_toString h (floor_div60 h s) = dec_nat (nat \<lfloor>s / 60\<rfloor>)"
proof -
  have m: "0 \<le> \<lfloor>s / 60\<rfloor>" using assms(1) by simp
  have "s / 60 < 2 ^ 53" using assms by simp
  then have "\<lfloor>s / 60\<rfloor> < 2 ^ 53"
    by (metis floor_less_iff of_int_numeral of_int_power)
  from num_toString_small [OF m this] assms show ?thesis
    by (simp add: floor_div60_def)
qed

text \<open>
  Claim C10. For every \<open>seconds > 0\<close>, \<open>formatTime\<close> returns the string of
  \<open>Math.floor(seconds / 60)\<close>, a colon, and the two decimal digits of
  \<open>floor(seconds mod 60)\<close>, which is below 60. Below \<open>2^52\<close> seconds the minutes are the
  decimal digits of the exact \<open>floor(seconds / 60)\<close>; \<open>125\<close> gives \<open>2:05\<close>. For \<open>0\<close>, \<open>NaN\<close>,
  \<open>undefined\<close> and \<open>null\<close> the result is \<open>0:00\<close>. All of it holds for every host.
\<close>

theorem formatTime_shape:
  "(0 < s \<longrightarrow>
      formatTime h (JNumber (Fin s))
        = num_toString h (floor_div60 h s) @ '':''
          @ [digit_char (nat \<lfloor>s - 60 * of_int \<lfloor>s / 60\<rfloor>\<rfloor> div 10),
             digit_char (nat \<lfloor>s - 60 * of_int \<lfloor>s / 60\<rfloor>\<rfloor> mod 10)]
      \<and> nat \<lfloor>s - 60 * of_int \<lfloor>s / 60\<rfloor>\<rfloor> < 60)
   \<and> (0 < s \<and> s < 2 ^ 52 \<longrightarrow>
      formatTime h (JNumber (Fin s))
        = dec_nat (nat \<lfloor>s / 60\<rfloor>) @ '':''
          @ [digit_char (nat \<lfloor>s - 60 * of_int \<lfloor>s / 60\<rfloor>\<rfloor> div 10),
             digit_char (nat \<lfloor>s - 60 * of_int \<lfloor>s / 60\<rfloor>\<rfloor> mod 10)])
   \<and> formatTime h (JNumber (Fin 125)) = ''2:05''
   \<and> formatTime h (JNumber (Fin 0)) = ''0:00''
   \<and> formatTime h (JNumber NaN) = ''0:00''
   \<and> formatTime h JUndefined = ''0:00''
   \<and> formatTime h JNull = ''0:00''"
proof (intro conjI impI)
  assume pos: "0 < s"
  show "formatTime h (JNumber (Fin s))
        = num_toString h (floor_div60 h s) @ '':''
          @ [digit_char (nat \<lfloor>s - 60 * of_int \<lfloor>s / 60\<rfloor>\<rfloor> div 10),
             digit_char (nat \<lfloor>s - 60 * of_int \<lfloor>s / 60\<rfloor>\<rfloor> mod 10)]"
    by (rule formatTime_pos [OF pos])
  have "0 \<le> \<lfloor>s - 60 * of_int \<lfloor>s / 60\<rfloor>\<rfloor>" "\<lfloor>s - 60 * of_int \<lfloor>s / 60\<rfloor>\<rfloor> < 60"
    by (rule secs_range)+
  then show "nat \<lfloor>s - 60 * of_int \<lfloor>s / 60\<rfloor>\<rfloor> < 60" by linarith
next
  assume b: "0 < s \<and> s < 2 ^ 52"
  then have pos: "0 < s" and small: "s < 2 ^ 52" by simp_all
  show "formatTime h (JNumber (Fin s))
        = dec_nat (nat \<lfloor>s / 60\<rfloor>) @ '':''
          @ [digit_char (nat \<lfloor>s - 60 * of_int \<lfloor>s / 60\<rfloor>\<rfloor> div 10),
             digit_char (nat \<lfloor>s - 60 * of_int \<lfloor>s / 60\<rfloor>\<rfloor> mod 10)]"
    by (simp only: formatTime_pos [OF pos] minutes_small [OF pos small])
next
  show "formatTime h (JNumber (Fin 125)) = ''2:05''"
    by (simp add: formatTime_def js_fmod_def floor_div60_def num_toString_def padStart_def
        dec_nat.simps digit_char_def)
qed (simp_all add: formatTime_def)

theorem formatTime_shape_witness:
  "\<forall>h. (0::real) < 3599.5 \<and> (3599.5::real) < 2 ^ 52
     \<and> formatTime h (JNumber (Fin 3599.5)) = ''59:59''
     \<and> (0::real) < 60 * 2 ^ 60
     \<and> formatTime h (JNumber (Fin (60 * 2 ^ 60)))
         = num_toString h \<lfloor>host_divide h (60 * 2 ^ 60) 60\<rfloor> @ '':00''"
proof
  fix h
  have f: "\<lfloor>3599.5 / 60 :: real\<rfloor> = 59" by (simp add: floor_eq_iff)
  have g: "\<lfloor>3599.5 - 60 * of_int \<lfloor>3599.5 / 60 :: real\<rfloor> :: real\<rfloor> = 59"
    by (simp add: f floor_eq_iff)
  have b: "(0::real) < 3599.5 \<and> (3599.5::real) < 2 ^ 52" by simp
  have 1: "formatTime h (JNumber (Fin 3599.5)) = ''59:59''"
    using formatTime_shape [of "3599.5" h, THEN conjunct2, THEN conjunct1, rule_format, OF b]
    by (simp add: f g dec_nat.simps digit_char_def)
  have p: "(0::real) < 60 * 2 ^ 60" by simp
  have q: "\<lfloor>(60 * 2 ^ 60 :: real) / 60\<rfloor> = 2 ^ 60"
    by (simp add: floor_eq_iff)
  have r: "\<lfloor>(60 * 2 ^ 60 :: real) - 60 * of_int \<lfloor>(60 * 2 ^ 60 :: real) / 60\<rfloor>\<rfloor> = 0"
    by (simp add: q)
  have 2: "formatTime h (JNumber (Fin (60 * 2 ^ 60)))
         = num_toString h \<lfloor>host_divide h (60 * 2 ^ 60) 60\<rfloor> @ '':00''"
    using formatTime_shape [of "60 * 2 ^ 60" h, THEN conjunct1, rule_format, OF p]
    by (simp add: r floor_div60_def digit_char_def)
  show "(0::real) < 3599.5 \<and> (3599.5::real) < 2 ^ 52
     \<and> formatTime h (JNumber (Fin 3599.5)) = ''59:59''
     \<and> (0::real) < 60 * 2 ^ 60
     \<and> formatTime h (JNumber (Fin (60 * 2 ^ 60)))
         = num_toString h \<lfloor>host_divide h (60 * 2 ^ 60) 60\<rfloor> @ '':00''"
    using b 1 p 2 by simp
qed

end
